theory Spec2Isabelle
  imports Complex_Main
begin

text \<open>
  A model of \<open>fits_to_xisf_batch.py\<close>: the conversion worker \<open>convert_fits_to_xisf\<close>
  and the run \<open>main\<close> (enumeration of the input tree, dispatch to the pool, retirement of
  the sources). The FITS decoder, the XISF encoder, \<open>os.walk\<close>, \<open>os.path.relpath\<close> and
  the order in which the pool completes its tasks are parameters; the filesystem is a
  state that the run passes along; an exception is a value. Reading \<open>config.ini\<close> is
  left out: a run starts from the values read.
\<close>

section \<open>Strings and paths\<close>

text \<open>
  Python strings are modelled as \<open>string\<close> (lists of characters). The functions below
  follow \<open>str.lower\<close>, \<open>str.endswith\<close>, the \<open>in\<close> test on strings, and the POSIX
  versions of \<open>os.path.join\<close> and \<open>os.path.splitext\<close>.
\<close>

type_synonym path = string

definition lower_char :: "char \<Rightarrow> char" where
  "lower_char c =
     (let n = (of_char c :: nat) in if 65 \<le> n \<and> n \<le> 90 then char_of (n + 32) else c)"

definition str_lower :: "string \<Rightarrow> string" where
  "str_lower s = map lower_char s"

definition endswith :: "string \<Rightarrow> string \<Rightarrow> bool" where
  "endswith s suf = (length suf \<le> length s \<and> drop (length s - length suf) s = suf)"

fun startswith :: "string \<Rightarrow> string \<Rightarrow> bool" where
  "startswith s [] = True"
| "startswith [] (p # ps) = False"
| "startswith (c # cs) (p # ps) = (c = p \<and> startswith cs ps)"

text \<open>\<open>sub in s\<close> on Python strings: \<open>sub\<close> occurs in \<open>s\<close> as a contiguous run.\<close>

fun str_contains :: "string \<Rightarrow> string \<Rightarrow> bool" where
  "str_contains sub [] = (sub = [])"
| "str_contains sub (c # cs) = (startswith (c # cs) sub \<or> str_contains sub cs)"

text \<open>\<open>posixpath.join\<close> with two arguments.\<close>

definition path_join :: "path \<Rightarrow> path \<Rightarrow> path" where
  "path_join a b =
     (if startswith b ''/'' then b
      else if a = [] \<or> endswith a ''/'' then a @ b
      else a @ ''/'' @ b)"

text \<open>\<open>str.rfind\<close> for a single character: the last index of \<open>c\<close>, or \<open>-1\<close>.\<close>

definition rfind :: "char \<Rightarrow> string \<Rightarrow> int" where
  "rfind c s =
     (if c \<in> set s then int (length s) - 1 - int (length (takeWhile (\<lambda>x. x \<noteq> c) (rev s)))
      else - 1)"

text \<open>
  The loop of \<open>genericpath._splitext\<close> that skips leading dots: it answers whether some
  character of the slice between the separator and the last dot is not a dot.
\<close>

fun has_non_dot :: "string \<Rightarrow> bool" where
  "has_non_dot [] = False"
| "has_non_dot (c # cs) = (if c \<noteq> CHR ''.'' then True else has_non_dot cs)"

definition splitext :: "path \<Rightarrow> path \<times> string" where
  "splitext p =
     (let sepIndex = rfind (CHR ''/'') p;
          dotIndex = rfind (CHR ''.'') p
      in if dotIndex > sepIndex
         then (let filenameIndex = sepIndex + 1
               in if has_non_dot (take (nat (dotIndex - filenameIndex)) (drop (nat filenameIndex) p))
                  then (take (nat dotIndex) p, drop (nat dotIndex) p)
                  else (p, []))
         else (p, []))"

section \<open>Exceptions\<close>

text \<open>
  A value of type \<open>exn\<close> is an instance of Python's \<open>Exception\<close>: its class and the text
  that \<open>str(e)\<close> returns.
\<close>

datatype exn_kind = OSError | IndexError | KeyError | ValueError | TypeError | RuntimeError

datatype exn = Exn exn_kind string

fun exn_class :: "exn \<Rightarrow> exn_kind" where
  "exn_class (Exn k m) = k"

fun exn_str :: "exn \<Rightarrow> string" where
  "exn_str (Exn k m) = m"

section \<open>Pixel data\<close>

text \<open>
  A numpy array: its shape and its elements in row-major order. \<open>ndim\<close> is the number
  of axes; \<open>item\<close> reads the element at a multi-index.
\<close>

record 'px ndarray =
  shape :: "nat list"
  pixels :: "'px list"

definition ndim :: "'px ndarray \<Rightarrow> nat" where
  "ndim a = length (shape a)"

fun flat_index :: "nat list \<Rightarrow> nat list \<Rightarrow> nat option" where
  "flat_index [] [] = Some 0"
| "flat_index (n # ns) (i # is) =
     (if i < n then map_option (\<lambda>r. i * prod_list ns + r) (flat_index ns is) else None)"
| "flat_index [] (i # is) = None"
| "flat_index (n # ns) [] = None"

definition item :: "'px ndarray \<Rightarrow> nat list \<Rightarrow> 'px option" where
  "item a idx =
     (case flat_index (shape a) idx of
        None \<Rightarrow> None
      | Some k \<Rightarrow> if k < length (pixels a) then Some (pixels a ! k) else None)"

text \<open>\<open>data[:, :, np.newaxis]\<close>: a view of the same elements with a unit axis appended.\<close>

definition newaxis_last :: "'px ndarray \<Rightarrow> 'px ndarray" where
  "newaxis_last a = a\<lparr>shape := shape a @ [1]\<rparr>"

text \<open>Lines 22--24 of \<open>convert_fits_to_xisf\<close>.\<close>

definition add_channel_axis :: "'px ndarray \<Rightarrow> 'px ndarray" where
  "add_channel_axis data = (if ndim data = 2 then newaxis_last data else data)"

section \<open>Header and FITS keywords\<close>

text \<open>
  Header values and what \<open>str\<close> makes of them. \<open>HRepr\<close> carries the text of a value
  of any other type (a float, an undefined value, a group of commentary cards).
\<close>

datatype hval = HStr string | HInt int | HBool bool | HRepr string

fun digit_char :: "nat \<Rightarrow> char" where
  "digit_char n = char_of (48 + n)"

fun nat_str :: "nat \<Rightarrow> string" where
  "nat_str n = (if n < 10 then [digit_char n] else nat_str (n div 10) @ [digit_char (n mod 10)])"

definition int_str :: "int \<Rightarrow> string" where
  "int_str i = (if i < 0 then ''-'' @ nat_str (nat (- i)) else nat_str (nat i))"

fun py_str :: "hval \<Rightarrow> string" where
  "py_str (HStr s) = s"
| "py_str (HInt i) = int_str i"
| "py_str (HBool b) = (if b then ''True'' else ''False'')"
| "py_str (HRepr s) = s"

text \<open>
  The header object as \<open>convert_fits_to_xisf\<close> uses it. A header is a sequence of
  cards; iterating over it yields the keyword of every card, so a repeated keyword is
  yielded more than once. \<open>hitem\<close> is \<open>header[key]\<close>, \<open>comments_has\<close> is
  \<open>key in header.comments\<close> and \<open>comments_item\<close> is \<open>header.comments[key]\<close>: the three
  lookups belong to the decoder's library, which decides what they return for a keyword
  that several cards carry.
\<close>

record card =
  keyword :: string
  card_value :: hval
  card_comment :: string

record header =
  cards :: "card list"
  hitem :: "string \<Rightarrow> hval"
  comments_has :: "string \<Rightarrow> bool"
  comments_item :: "string \<Rightarrow> string"

definition hkeys :: "header \<Rightarrow> string list" where
  "hkeys h = map keyword (cards h)"

record kw_entry =
  kw_value :: string
  kw_comment :: string

type_synonym fits_keywords = "string \<rightharpoonup> kw_entry list"

text \<open>The body of the loop at lines 28--31, and the loop itself.\<close>

definition keyword_step :: "header \<Rightarrow> fits_keywords \<Rightarrow> string \<Rightarrow> fits_keywords" where
  "keyword_step h kws key =
     (let val = py_str (hitem h key);
          comment = (if comments_has h key then comments_item h key else [])
      in kws(key \<mapsto> [\<lparr>kw_value = val, kw_comment = comment\<rparr>]))"

definition build_fits_keywords :: "header \<Rightarrow> fits_keywords" where
  "build_fits_keywords h = foldl (keyword_step h) Map.empty (hkeys h)"

section \<open>The conversion worker\<close>

text \<open>
  One call of \<open>XISF.write\<close>: \<open>w_metadata\<close> is \<open>Some\<close> of the \<open>FITSKeywords\<close> record when
  \<open>image_metadata\<close> (with an empty \<open>xisf_metadata\<close>) is passed, and \<open>None\<close> in the
  fallback call, which passes neither.
\<close>

record 'px write_call =
  w_path :: path
  w_data :: "'px ndarray"
  w_creator_app :: string
  w_metadata :: "fits_keywords option"
  w_codec :: string
  w_shuffle :: bool
  w_level :: int

text \<open>The call that attaches the metadata (lines 35--41) and the fallback call (lines 46--50).\<close>

definition metadata_call ::
  "path \<Rightarrow> 'px ndarray \<Rightarrow> string \<Rightarrow> bool \<Rightarrow> int \<Rightarrow> string \<Rightarrow> fits_keywords \<Rightarrow> 'px write_call" where
  "metadata_call xisf_path data codec shuffle level creator_app fits_keywords =
     \<lparr>w_path = xisf_path, w_data = data, w_creator_app = creator_app,
      w_metadata = Some fits_keywords, w_codec = codec, w_shuffle = shuffle, w_level = level\<rparr>"

definition fallback_call ::
  "path \<Rightarrow> 'px ndarray \<Rightarrow> string \<Rightarrow> bool \<Rightarrow> int \<Rightarrow> string \<Rightarrow> 'px write_call" where
  "fallback_call xisf_path data codec shuffle level creator_app =
     \<lparr>w_path = xisf_path, w_data = data, w_creator_app = creator_app,
      w_metadata = None, w_codec = codec, w_shuffle = shuffle, w_level = level\<rparr>"

text \<open>The decoder and the encoder are external: they are parameters of the worker.\<close>

record 'px codecs =
  getdata :: "path \<Rightarrow> exn + 'px ndarray"
  getheader :: "path \<Rightarrow> exn + header"
  xisf_write :: "'px write_call \<Rightarrow> exn + (nat \<times> string)"

text \<open>
  \<open>convert_fits_to_xisf\<close> returns the calls of \<open>XISF.write\<close> it made, in order, and
  either the exception it raised or the pair that \<open>XISF.write\<close> returned.
\<close>

definition convert_fits_to_xisf ::
  "'px codecs \<Rightarrow> path \<Rightarrow> path \<Rightarrow> string \<Rightarrow> bool \<Rightarrow> int \<Rightarrow> string
     \<Rightarrow> 'px write_call list \<times> (exn + (nat \<times> string))" where
  "convert_fits_to_xisf cd fits_path xisf_path codec shuffle level creator_app =
     (case getdata cd fits_path of
        Inl e \<Rightarrow> ([], Inl e)
      | Inr data0 \<Rightarrow>
         (case getheader cd fits_path of
            Inl e \<Rightarrow> ([], Inl e)
          | Inr hdr \<Rightarrow>
             (let data = add_channel_axis data0;
                  fits_keywords = build_fits_keywords hdr;
                  first = metadata_call xisf_path data codec shuffle level creator_app fits_keywords
              in case xisf_write cd first of
                   Inr r \<Rightarrow> ([first], Inr r)
                 | Inl e \<Rightarrow>
                    (let msg = exn_str e
                     in if str_contains ''tuple index out of range'' msg
                        then (let fallback =
                                    fallback_call xisf_path data codec shuffle level creator_app
                              in ([first, fallback], xisf_write cd fallback))
                        else ([first], Inl e)))))"

section \<open>Configuration, filesystem and console\<close>

text \<open>The values \<open>main\<close> reads from the \<open>settings\<close> section of \<open>config.ini\<close>.\<close>

record config =
  input_dir :: path
  output_dir :: path
  codec :: string
  shuffle :: bool
  level :: int
  creator_app :: string
  workers :: int
  skip_existing :: bool
  delete_older_than_days :: int

text \<open>
  A file has a modification time (seconds since the epoch) and a content. Times are
  real numbers.
\<close>

record regular_file =
  mtime :: real
  content :: string

text \<open>
  What the run does to the outside, in order: the calls that change the filesystem or
  hand a task to the pool, and the lines it prints.
\<close>

datatype event =
    NotAFolderError path
  | MakeDirs path
  | SkipNotice path
  | Copy2 path path
  | ConvertingNotice nat int
  | Submit path path
  | SuccessNotice path path nat string
  | AgeWarning path exn
  | Remove path
  | DeletedNotice path
  | DeleteWarning path exn
  | TooRecentNotice path
  | FailedNotice path exn

text \<open>
  The state of the world: the regular files, the directories, the paths on which the
  platform refuses to create, overwrite or remove, the reading of \<open>time.time()\<close>, and
  the events so far.
\<close>

record world =
  files :: "path \<rightharpoonup> regular_file"
  dirs :: "path set"
  denied :: "path set"
  clock :: real
  events :: "event list"

definition emit :: "event \<Rightarrow> world \<Rightarrow> world" where
  "emit ev w = w\<lparr>events := events w @ [ev]\<rparr>"

definition os_isdir :: "world \<Rightarrow> path \<Rightarrow> bool" where
  "os_isdir w p = (p \<in> dirs w)"

definition os_exists :: "world \<Rightarrow> path \<Rightarrow> bool" where
  "os_exists w p = (files w p \<noteq> None \<or> p \<in> dirs w)"

text \<open>
  \<open>os.makedirs(p, exist_ok=True)\<close>: an existing directory is not an error; a regular
  file at \<open>p\<close> or a refusal of the platform is an \<open>OSError\<close>.
\<close>

definition os_makedirs :: "path \<Rightarrow> world \<Rightarrow> (exn + unit) \<times> world" where
  "os_makedirs p w =
     (let w1 = emit (MakeDirs p) w
      in if files w p \<noteq> None then (Inl (Exn OSError ''[Errno 17] File exists''), w1)
         else if p \<in> denied w \<and> p \<notin> dirs w then (Inl (Exn OSError ''[Errno 13] Permission denied''), w1)
         else (Inr (), w1\<lparr>dirs := insert p (dirs w1)\<rparr>))"

definition basename :: "path \<Rightarrow> path" where
  "basename p = drop (nat (rfind (CHR ''/'') p + 1)) p"

text \<open>
  \<open>shutil.copy2(src, dst)\<close>: the destination receives the content and the modification
  time of the source; when \<open>dst\<close> is a directory the copy is made inside it.
\<close>

definition shutil_copy2 :: "path \<Rightarrow> path \<Rightarrow> world \<Rightarrow> (exn + unit) \<times> world" where
  "shutil_copy2 src dst w =
     (let w1 = emit (Copy2 src dst) w;
          target = (if dst \<in> dirs w then path_join dst (basename src) else dst)
      in case files w src of
           None \<Rightarrow> (Inl (Exn OSError ''[Errno 2] No such file or directory''), w1)
         | Some f \<Rightarrow>
             if target \<in> denied w \<or> target \<in> dirs w
             then (Inl (Exn OSError ''[Errno 13] Permission denied''), w1)
             else (Inr (), w1\<lparr>files := (files w1)(target \<mapsto> f)\<rparr>))"

definition os_getmtime :: "path \<Rightarrow> world \<Rightarrow> (exn + real) \<times> world" where
  "os_getmtime p w =
     (case files w p of
        None \<Rightarrow> (Inl (Exn OSError ''[Errno 2] No such file or directory''), w)
      | Some f \<Rightarrow> (Inr (mtime f), w))"

definition os_remove :: "path \<Rightarrow> world \<Rightarrow> (exn + unit) \<times> world" where
  "os_remove p w =
     (let w1 = emit (Remove p) w
      in if files w p = None then (Inl (Exn OSError ''[Errno 2] No such file or directory''), w1)
         else if p \<in> denied w then (Inl (Exn OSError ''[Errno 13] Permission denied''), w1)
         else (Inr (), w1\<lparr>files := (files w1)(p := None)\<rparr>))"

section \<open>Tree enumeration\<close>

type_synonym task = "path \<times> path"

text \<open>
  The services \<open>main\<close> gets from outside: the decoder and encoder, what \<open>os.walk\<close>
  yields for the input directory, \<open>os.path.relpath\<close>, and the order in which the pool
  completes the submitted tasks.
\<close>

record 'px env =
  codecs_of :: "'px codecs"
  os_walk :: "path \<Rightarrow> (path \<times> path list \<times> path list) list"
  relpath :: "path \<Rightarrow> path \<Rightarrow> path"
  as_completed :: "task list \<Rightarrow> task list"

definition is_convertible :: "string \<Rightarrow> bool" where
  "is_convertible fn = endswith (str_lower fn) ''.fits''"

definition xisf_dst :: "path \<Rightarrow> string \<Rightarrow> path" where
  "xisf_dst dest_root fn = fst (splitext (path_join dest_root fn)) @ ''.xisf''"

text \<open>The body of the loop over the files of one directory (lines 88--98).\<close>

definition process_file ::
  "config \<Rightarrow> path \<Rightarrow> path \<Rightarrow> string \<Rightarrow> task list \<Rightarrow> world \<Rightarrow> (exn + task list) \<times> world" where
  "process_file cfg walk_root dest_root fn fits_tasks w =
     (let src = path_join walk_root fn
      in if is_convertible fn
         then (let dst = xisf_dst dest_root fn
               in if os_exists w dst \<and> skip_existing cfg
                  then (Inr fits_tasks, emit (SkipNotice src) w)
                  else (Inr (fits_tasks @ [(src, dst)]), w))
         else (case shutil_copy2 src (path_join dest_root fn) w of
                 (Inl e, w1) \<Rightarrow> (Inl e, w1)
               | (Inr u, w1) \<Rightarrow> (Inr fits_tasks, w1)))"

fun process_files ::
  "config \<Rightarrow> path \<Rightarrow> path \<Rightarrow> string list \<Rightarrow> task list \<Rightarrow> world \<Rightarrow> (exn + task list) \<times> world" where
  "process_files cfg walk_root dest_root [] fits_tasks w = (Inr fits_tasks, w)"
| "process_files cfg walk_root dest_root (fn # fns) fits_tasks w =
     (case process_file cfg walk_root dest_root fn fits_tasks w of
        (Inl e, w1) \<Rightarrow> (Inl e, w1)
      | (Inr ts, w1) \<Rightarrow> process_files cfg walk_root dest_root fns ts w1)"

definition dest_root_of :: "config \<Rightarrow> 'px env \<Rightarrow> path \<Rightarrow> path" where
  "dest_root_of cfg ev walk_root = path_join (output_dir cfg) (relpath ev walk_root (input_dir cfg))"

text \<open>The body of the loop over \<open>os.walk\<close> (lines 83--98), and the loop.\<close>

definition walk_step ::
  "config \<Rightarrow> 'px env \<Rightarrow> path \<times> path list \<times> path list \<Rightarrow> task list \<Rightarrow> world
     \<Rightarrow> (exn + task list) \<times> world" where
  "walk_step cfg ev entry fits_tasks w =
     (case entry of (walk_root, ds, fns) \<Rightarrow>
        (let dest_root = dest_root_of cfg ev walk_root
         in case os_makedirs dest_root w of
              (Inl e, w1) \<Rightarrow> (Inl e, w1)
            | (Inr u, w1) \<Rightarrow> process_files cfg walk_root dest_root fns fits_tasks w1))"

fun walk_loop ::
  "config \<Rightarrow> 'px env \<Rightarrow> (path \<times> path list \<times> path list) list \<Rightarrow> task list \<Rightarrow> world
     \<Rightarrow> (exn + task list) \<times> world" where
  "walk_loop cfg ev [] fits_tasks w = (Inr fits_tasks, w)"
| "walk_loop cfg ev (entry # entries) fits_tasks w =
     (case walk_step cfg ev entry fits_tasks w of
        (Inl e, w1) \<Rightarrow> (Inl e, w1)
      | (Inr ts, w1) \<Rightarrow> walk_loop cfg ev entries ts w1)"

text \<open>Lines 80--98: the task list starts empty and the walk fills it.\<close>

definition enumerate_tree :: "config \<Rightarrow> 'px env \<Rightarrow> world \<Rightarrow> (exn + task list) \<times> world" where
  "enumerate_tree cfg ev w = walk_loop cfg ev (os_walk ev (input_dir cfg)) [] w"

section \<open>Scheduling and retirement\<close>

text \<open>
  The outcome stored in a task's future: what \<open>worker_fn(src, dst)\<close> returned or raised.
\<close>

definition future_result :: "config \<Rightarrow> 'px env \<Rightarrow> task \<Rightarrow> exn + (nat \<times> string)" where
  "future_result cfg ev t =
     snd (convert_fits_to_xisf (codecs_of ev) (fst t) (snd t)
            (codec cfg) (shuffle cfg) (level cfg) (creator_app cfg))"

text \<open>Lines 116--129: the value of \<open>should_delete\<close>.\<close>

definition decide_delete :: "config \<Rightarrow> path \<Rightarrow> world \<Rightarrow> (exn + bool) \<times> world" where
  "decide_delete cfg src w =
     (if delete_older_than_days cfg = 0 then (Inr True, w)
      else (case os_getmtime src w of
              (Inr file_mtime, w1) \<Rightarrow>
                (let file_age_days = (clock w1 - file_mtime) / (24 * 3600)
                 in (Inr (file_age_days \<ge> real_of_int (delete_older_than_days cfg)), w1))
            | (Inl e, w1) \<Rightarrow>
                if exn_class e = OSError then (Inr False, emit (AgeWarning src e) w1)
                else (Inl e, w1)))"

text \<open>Lines 131--139: the removal, or the notice.\<close>

definition delete_or_keep :: "config \<Rightarrow> path \<Rightarrow> bool \<Rightarrow> world \<Rightarrow> (exn + unit) \<times> world" where
  "delete_or_keep cfg src should_delete w =
     (if should_delete
      then (case os_remove src w of
              (Inr u, w1) \<Rightarrow> (Inr (), emit (DeletedNotice src) w1)
            | (Inl e, w1) \<Rightarrow>
                if exn_class e = OSError then (Inr (), emit (DeleteWarning src e) w1)
                else (Inl e, w1))
      else if delete_older_than_days cfg > 0 then (Inr (), emit (TooRecentNotice src) w)
      else (Inr (), w))"

text \<open>Lines 115--139.\<close>

definition retire :: "config \<Rightarrow> path \<Rightarrow> world \<Rightarrow> (exn + unit) \<times> world" where
  "retire cfg src w =
     (if delete_older_than_days cfg \<noteq> - 1
      then (case decide_delete cfg src w of
              (Inl e, w1) \<Rightarrow> (Inl e, w1)
            | (Inr should_delete, w1) \<Rightarrow> delete_or_keep cfg src should_delete w1)
      else (Inr (), w))"

text \<open>
  The body of the loop over the completed futures (lines 108--142): the \<open>try\<close> block,
  and the handler of \<open>except Exception\<close>.
\<close>

definition try_block :: "config \<Rightarrow> task \<Rightarrow> exn + (nat \<times> string) \<Rightarrow> world \<Rightarrow> (exn + unit) \<times> world" where
  "try_block cfg t res w =
     (case res of
        Inl e \<Rightarrow> (Inl e, w)
      | Inr (nbytes, used_codec) \<Rightarrow>
          retire cfg (fst t) (emit (SuccessNotice (fst t) (snd t) nbytes used_codec) w))"

definition handle_future :: "config \<Rightarrow> task \<Rightarrow> exn + (nat \<times> string) \<Rightarrow> world \<Rightarrow> (exn + unit) \<times> world" where
  "handle_future cfg t res w =
     (case try_block cfg t res w of
        (Inl e, w1) \<Rightarrow> (Inr (), emit (FailedNotice (fst t) e) w1)
      | (Inr u, w1) \<Rightarrow> (Inr (), w1))"

text \<open>
  What the worker of a task leaves on the disk: when a call of \<open>XISF.write\<close> returned, which
  is then the last call the worker made, a file is at the path that was passed to that
  call. Only the existence of that file and its time are part of the model, not its bytes.
  A worker that raised leaves the files as they were.
\<close>

definition worker_effect :: "config \<Rightarrow> 'px env \<Rightarrow> task \<Rightarrow> world \<Rightarrow> world" where
  "worker_effect cfg ev t w =
     (case convert_fits_to_xisf (codecs_of ev) (fst t) (snd t)
             (codec cfg) (shuffle cfg) (level cfg) (creator_app cfg) of
        (calls, Inl e) \<Rightarrow> w
      | (calls, Inr r) \<Rightarrow>
          w\<lparr>files := (files w)(w_path (last calls) \<mapsto> \<lparr>mtime = clock w, content = []\<rparr>)\<rparr>)"

text \<open>
  The loop over the completed futures (line 107). A future completes after its worker has
  run, so what the worker wrote is on the disk when the future is handled.
\<close>

fun collect :: "config \<Rightarrow> 'px env \<Rightarrow> task list \<Rightarrow> world \<Rightarrow> (exn + unit) \<times> world" where
  "collect cfg ev [] w = (Inr (), w)"
| "collect cfg ev (t # ts) w =
     (case handle_future cfg t (future_result cfg ev t) (worker_effect cfg ev t w) of
        (Inl e, w1) \<Rightarrow> (Inl e, w1)
      | (Inr u, w1) \<Rightarrow> collect cfg ev ts w1)"

text \<open>The dictionary comprehension at line 106 submits every task, in order.\<close>

definition submit_all :: "task list \<Rightarrow> world \<Rightarrow> world" where
  "submit_all ts w = w\<lparr>events := events w @ map (\<lambda>t. Submit (fst t) (snd t)) ts\<rparr>"

section \<open>The run\<close>

text \<open>How \<open>main\<close> can end other than by returning: \<open>sys.exit\<close>, or an exception nobody caught.\<close>

datatype abort = SystemExit int | Uncaught exn

definition main :: "config \<Rightarrow> 'px env \<Rightarrow> world \<Rightarrow> (abort + unit) \<times> world" where
  "main cfg ev w =
     (if \<not> os_isdir w (input_dir cfg)
      then (Inl (SystemExit 1), emit (NotAFolderError (input_dir cfg)) w)
      else (case os_makedirs (output_dir cfg) w of
              (Inl e, w1) \<Rightarrow> (Inl (Uncaught e), w1)
            | (Inr u, w1) \<Rightarrow>
               (case enumerate_tree cfg ev w1 of
                  (Inl e, w2) \<Rightarrow> (Inl (Uncaught e), w2)
                | (Inr fits_tasks, w2) \<Rightarrow>
                   (let w3 = emit (ConvertingNotice (length fits_tasks) (workers cfg)) w2
                    in if workers cfg \<le> 0
                       then (Inl (Uncaught (Exn ValueError ''max_workers must be greater than 0'')), w3)
                       else (case collect cfg ev (as_completed ev fits_tasks)
                                    (submit_all fits_tasks w3) of
                               (Inl e, w4) \<Rightarrow> (Inl (Uncaught e), w4)
                             | (Inr u, w4) \<Rightarrow> (Inr (), w4))))))"

section \<open>Observing a run\<close>

text \<open>
  The futures that a run processes, in the order of their completion: none when the run
  ends before the pool is created.
\<close>

definition run_futures :: "config \<Rightarrow> 'px env \<Rightarrow> world \<Rightarrow> task list" where
  "run_futures cfg ev w =
     (if \<not> os_isdir w (input_dir cfg) then []
      else (case os_makedirs (output_dir cfg) w of
              (Inl e, w1) \<Rightarrow> []
            | (Inr u, w1) \<Rightarrow>
               (case enumerate_tree cfg ev w1 of
                  (Inl e, w2) \<Rightarrow> []
                | (Inr fits_tasks, w2) \<Rightarrow>
                    if workers cfg \<le> 0 then [] else as_completed ev fits_tasks)))"



fun is_submit :: "event \<Rightarrow> bool" where
  "is_submit (Submit src dst) = True"
| "is_submit ev = False"

text \<open>The events of the enumeration phase.\<close>

fun is_enumeration_event :: "event \<Rightarrow> bool" where
  "is_enumeration_event (MakeDirs p) = True"
| "is_enumeration_event (SkipNotice src) = True"
| "is_enumeration_event (Copy2 src dst) = True"
| "is_enumeration_event ev = False"

text \<open>
  What the enumeration phase may do to the world: it removes no file and no directory,
  leaves the clock and the refusals alone, and adds events of the enumeration only.
\<close>

definition enum_frame :: "world \<Rightarrow> world \<Rightarrow> bool" where
  "enum_frame w w' =
     (dom (files w) \<subseteq> dom (files w') \<and> dirs w \<subseteq> dirs w' \<and> denied w' = denied w \<and>
      clock w' = clock w \<and>
      (\<exists>evs. events w' = events w @ evs \<and> list_all is_enumeration_event evs))"

text \<open>What the loop over the completed futures adds to the events.\<close>

definition sched_frame :: "world \<Rightarrow> world \<Rightarrow> bool" where
  "sched_frame w w' =
     (\<exists>evs. events w' = events w @ evs \<and>
            list_all (\<lambda>e. \<not> is_enumeration_event e \<and> \<not> is_submit e) evs)"

section \<open>Example inputs\<close>

text \<open>
  A 2 by 3 grayscale image, a header in which the keyword \<open>OBJECT\<close> is carried by two
  cards, and decoders and encoders over them. \<open>first_card_value\<close> is the lookup of a
  header library that answers \<open>header[key]\<close> with the first card of that keyword.
\<close>

definition ex_image :: "int ndarray" where
  "ex_image = \<lparr>shape = [2, 3], pixels = [10, 20, 30, 40, 50, 60]\<rparr>"

fun first_card_value :: "card list \<Rightarrow> string \<Rightarrow> hval" where
  "first_card_value [] k = HRepr []"
| "first_card_value (c # cs) k = (if keyword c = k then card_value c else first_card_value cs k)"

definition ex_cards :: "card list" where
  "ex_cards =
     [\<lparr>keyword = ''NAXIS'', card_value = HInt 2, card_comment = ''number of axes''\<rparr>,
      \<lparr>keyword = ''OBJECT'', card_value = HStr ''M31'', card_comment = []\<rparr>,
      \<lparr>keyword = ''OBJECT'', card_value = HStr ''M33'', card_comment = []\<rparr>]"

definition ex_header :: header where
  "ex_header =
     \<lparr>cards = ex_cards, hitem = first_card_value ex_cards,
      comments_has = (\<lambda>k. k = ''NAXIS''), comments_item = (\<lambda>k. ''number of axes'')\<rparr>"

definition write_ok :: "int write_call \<Rightarrow> exn + (nat \<times> string)" where
  "write_ok wc = Inr (8 * length (pixels (w_data wc)), w_codec wc)"

definition write_rejects_metadata :: "int write_call \<Rightarrow> exn + (nat \<times> string)" where
  "write_rejects_metadata wc =
     (case w_metadata wc of
        Some m \<Rightarrow> Inl (Exn IndexError ''tuple index out of range'')
      | None \<Rightarrow> write_ok wc)"

definition write_denied :: "int write_call \<Rightarrow> exn + (nat \<times> string)" where
  "write_denied wc =
     Inl (Exn OSError (''[Errno 13] Permission denied: '' @ [CHR 0x27] @ w_path wc @ [CHR 0x27]))"

definition write_disk_full :: "int write_call \<Rightarrow> exn + (nat \<times> string)" where
  "write_disk_full wc = Inl (Exn OSError ''[Errno 28] No space left on device'')"

definition ex_codecs :: "(int write_call \<Rightarrow> exn + (nat \<times> string)) \<Rightarrow> int codecs" where
  "ex_codecs wr =
     \<lparr>getdata = (\<lambda>p. Inr ex_image), getheader = (\<lambda>p. Inr ex_header), xisf_write = wr\<rparr>"

text \<open>
  A configuration, a world with two sources that differ in the letter case of the
  extension, a text file and a source in a subdirectory, a walk of that world, and the
  services of a run over them.
\<close>

definition ex_config :: "bool \<Rightarrow> int \<Rightarrow> config" where
  "ex_config skip days =
     \<lparr>input_dir = ''in'', output_dir = ''out'', codec = ''zlib'', shuffle = True, level = 6,
      creator_app = ''fits_to_xisf_batch.py'', workers = 4, skip_existing = skip,
      delete_older_than_days = days\<rparr>"

definition ex_world :: "real \<Rightarrow> world" where
  "ex_world now =
     \<lparr>files = [''in/a.fits'' \<mapsto> \<lparr>mtime = 0, content = ''SIMPLE''\<rparr>,
               ''in/a.FITS'' \<mapsto> \<lparr>mtime = 0, content = ''SIMPLE''\<rparr>,
               ''in/notes.txt'' \<mapsto> \<lparr>mtime = 0, content = ''dark frames''\<rparr>,
               ''in/sub/b.fits'' \<mapsto> \<lparr>mtime = 0, content = ''SIMPLE''\<rparr>],
      dirs = {''in'', ''in/sub''}, denied = {}, clock = now, events = []\<rparr>"

text \<open>The same world after a run that converted both sources and copied the text file.\<close>

definition ex_world_converted :: "real \<Rightarrow> world" where
  "ex_world_converted now =
     (ex_world now)
       \<lparr>files := (files (ex_world now))
           (''out/./a.xisf'' \<mapsto> \<lparr>mtime = now, content = ''XISF0100''\<rparr>,
            ''out/sub/b.xisf'' \<mapsto> \<lparr>mtime = now, content = ''XISF0100''\<rparr>,
            ''out/./notes.txt'' \<mapsto> \<lparr>mtime = 0, content = ''dark frames''\<rparr>),
        dirs := {''in'', ''in/sub'', ''out'', ''out/.'', ''out/sub''}\<rparr>"

definition ex_walk :: "(path \<times> path list \<times> path list) list" where
  "ex_walk = [(''in'', [''sub''], [''a.fits'', ''notes.txt'']), (''in/sub'', [], [''b.fits''])]"

text \<open>The walk of the same tree once \<open>in/a.fits\<close> has been removed.\<close>

definition ex_walk_after :: "(path \<times> path list \<times> path list) list" where
  "ex_walk_after = [(''in'', [''sub''], [''notes.txt'']), (''in/sub'', [], [''b.fits''])]"

definition write_full_for :: "path \<Rightarrow> int write_call \<Rightarrow> exn + (nat \<times> string)" where
  "write_full_for p wc = (if w_path wc = p then write_disk_full wc else write_ok wc)"

definition ex_relpath :: "path \<Rightarrow> path \<Rightarrow> path" where
  "ex_relpath p start = (if p = start then ''.'' else drop (length start + 1) p)"

definition ex_env ::
  "(int write_call \<Rightarrow> exn + (nat \<times> string)) \<Rightarrow> (path \<times> path list \<times> path list) list \<Rightarrow> int env" where
  "ex_env wr walk =
     \<lparr>codecs_of = ex_codecs wr, os_walk = (\<lambda>p. walk), relpath = ex_relpath,
      as_completed = rev\<rparr>"

section \<open>Dimensionality normalisation\<close>

lemma flat_index_nil: "flat_index [] idx = (if idx = [] then Some 0 else None)"
  by (cases idx) auto

lemma flat_index_no_index: "flat_index (ns @ [k]) [] = None"
  by (cases ns) auto

lemma flat_index_snoc: "flat_index (s @ [Suc 0]) (idx @ [0]) = flat_index s idx"
proof (induction s arbitrary: idx)
  case Nil
  show ?case by (cases idx) (auto simp: flat_index_nil)
next
  case (Cons n ns)
  show ?case by (cases idx) (auto simp: Cons.IH flat_index_no_index)
qed

lemma item_newaxis: "item (newaxis_last a) (idx @ [0]) = item a idx"
  by (simp add: item_def newaxis_last_def flat_index_snoc split: option.splits)

text \<open>
  C6. When the source is read, the worker calls the encoder at least once, and every
  call it makes carries the normalised data: for a two-dimensional image the shape with
  a unit axis appended, three axes, the same elements, and the element at \<open>[i, j, 0]\<close>
  is the element the source has at \<open>[i, j]\<close>; an image of any other rank, a
  three-dimensional one in particular, is passed as it was read.
\<close>

theorem channel_axis_before_write:
  assumes "getdata cd fp = Inr data0" and "getheader cd fp = Inr hdr"
  shows "fst (convert_fits_to_xisf cd fp xp c s l a) \<noteq> [] \<and>
    (\<forall>wc \<in> set (fst (convert_fits_to_xisf cd fp xp c s l a)).
       (ndim data0 = 2 \<longrightarrow>
          shape (w_data wc) = shape data0 @ [1] \<and> ndim (w_data wc) = 3 \<and>
          pixels (w_data wc) = pixels data0 \<and>
          (\<forall>i j. item (w_data wc) [i, j, 0] = item data0 [i, j])) \<and>
       (ndim data0 \<noteq> 2 \<longrightarrow> w_data wc = data0))"
proof -
  have calls: "fst (convert_fits_to_xisf cd fp xp c s l a) \<noteq> [] \<and>
     (\<forall>wc \<in> set (fst (convert_fits_to_xisf cd fp xp c s l a)). w_data wc = add_channel_axis data0)"
    using assms
    by (auto simp: convert_fits_to_xisf_def Let_def metadata_call_def fallback_call_def
             split: sum.splits)
  have two: "ndim data0 = 2 \<Longrightarrow> item (add_channel_axis data0) [i, j, 0] = item data0 [i, j]" for i j
    using item_newaxis [of data0 "[i, j]"] by (simp add: add_channel_axis_def)
  show ?thesis
    using calls two by (auto simp: add_channel_axis_def newaxis_last_def ndim_def)
qed

theorem channel_axis_before_write_witness:
  "getdata (ex_codecs write_rejects_metadata) ''in/a.fits'' = Inr ex_image \<and>
   getheader (ex_codecs write_rejects_metadata) ''in/a.fits'' = Inr ex_header \<and>
   ndim ex_image = 2 \<and>
   map (\<lambda>wc. shape (w_data wc))
     (fst (convert_fits_to_xisf (ex_codecs write_rejects_metadata)
             ''in/a.fits'' ''out/a.xisf'' ''zlib'' True 6 ''app'')) = [[2, 3, 1], [2, 3, 1]] \<and>
   map (\<lambda>wc. pixels (w_data wc))
     (fst (convert_fits_to_xisf (ex_codecs write_rejects_metadata)
             ''in/a.fits'' ''out/a.xisf'' ''zlib'' True 6 ''app'')) =
     [[10, 20, 30, 40, 50, 60], [10, 20, 30, 40, 50, 60]] \<and>
   map (\<lambda>wc. item (w_data wc) [1, 2, 0])
     (fst (convert_fits_to_xisf (ex_codecs write_rejects_metadata)
             ''in/a.fits'' ''out/a.xisf'' ''zlib'' True 6 ''app'')) = [Some 60, Some 60]"
proof -
  have h1: "getdata (ex_codecs write_rejects_metadata) ''in/a.fits'' = Inr ex_image"
    by (simp add: ex_codecs_def)
  have h2: "getheader (ex_codecs write_rejects_metadata) ''in/a.fits'' = Inr ex_header"
    by (simp add: ex_codecs_def)
  have n: "ndim ex_image = 2" "shape ex_image = [2, 3]" "pixels ex_image = [10, 20, 30, 40, 50, 60]"
    "item ex_image [1, 2] = Some 60"
    by (simp_all add: ndim_def ex_image_def item_def)
  have calls: "fst (convert_fits_to_xisf (ex_codecs write_rejects_metadata)
                  ''in/a.fits'' ''out/a.xisf'' ''zlib'' True 6 ''app'') =
      [metadata_call ''out/a.xisf'' (add_channel_axis ex_image) ''zlib'' True 6 ''app''
         (build_fits_keywords ex_header),
       fallback_call ''out/a.xisf'' (add_channel_axis ex_image) ''zlib'' True 6 ''app'']"
    by (simp add: convert_fits_to_xisf_def ex_codecs_def write_rejects_metadata_def
                  metadata_call_def Let_def)
  show ?thesis
    using channel_axis_before_write [OF h1 h2, of "''out/a.xisf''" "''zlib''" True 6 "''app''"]
      h1 h2 n
    by (simp add: calls)
qed

section \<open>The metadata record\<close>

lemma fold_keyword_step:
  "foldl (keyword_step h) m ks key =
     (if key \<in> set ks
      then Some [\<lparr>kw_value = py_str (hitem h key),
                  kw_comment = (if comments_has h key then comments_item h key else [])\<rparr>]
      else m key)"
  by (induction ks arbitrary: m) (auto simp: keyword_step_def)

text \<open>
  C10, as amended. In the record the worker builds, every keyword that the header yields
  maps to a list of exactly one entry: its value is \<open>str(header[key])\<close> and its comment
  is \<open>header.comments[key]\<close> when the key is in \<open>header.comments\<close> and the empty string
  otherwise; a keyword the header does not yield is absent. A keyword carried by several
  cards therefore has one entry, and that entry holds whatever \<open>header[key]\<close> returns
  for the keyword, which need not be the value of its last card.
\<close>

theorem fits_keywords_one_entry_per_key:
  "build_fits_keywords h key =
     (if key \<in> set (hkeys h)
      then Some [\<lparr>kw_value = py_str (hitem h key),
                  kw_comment = (if comments_has h key then comments_item h key else [])\<rparr>]
      else None)"
  by (simp add: build_fits_keywords_def fold_keyword_step)

theorem fits_keywords_one_entry_per_key_witness:
  "build_fits_keywords ex_header ''NAXIS'' =
     Some [\<lparr>kw_value = ''2'', kw_comment = ''number of axes''\<rparr>] \<and>
   build_fits_keywords ex_header ''OBJECT'' = Some [\<lparr>kw_value = ''M31'', kw_comment = []\<rparr>] \<and>
   build_fits_keywords ex_header ''BITPIX'' = None"
proof -
  have k: "hkeys ex_header = [''NAXIS'', ''OBJECT'', ''OBJECT'']"
    by (simp add: hkeys_def ex_header_def ex_cards_def)
  have two: "int_str 2 = ''2''"
    by code_simp
  have v: "py_str (hitem ex_header ''NAXIS'') = ''2''" "py_str (hitem ex_header ''OBJECT'') = ''M31''"
    by (simp_all add: ex_header_def ex_cards_def two)
  have c: "comments_has ex_header ''NAXIS''" "\<not> comments_has ex_header ''OBJECT''"
    "comments_item ex_header ''NAXIS'' = ''number of axes''"
    by (simp_all add: ex_header_def)
  show ?thesis
    using fits_keywords_one_entry_per_key [of ex_header "''NAXIS''"]
      fits_keywords_one_entry_per_key [of ex_header "''OBJECT''"]
      fits_keywords_one_entry_per_key [of ex_header "''BITPIX''"]
    by (simp add: k v c)
qed

text \<open>
  C10 as stated fails: in \<open>ex_header\<close> the keyword \<open>OBJECT\<close> is carried by two cards, the
  last with the value \<open>M33\<close>, the header answers \<open>header['OBJECT']\<close> with the first of
  them, and the entry of the record holds \<open>M31\<close>.
\<close>

theorem last_occurrence_not_retained:
  "hkeys ex_header = [''NAXIS'', ''OBJECT'', ''OBJECT''] \<and>
   card_value (last (cards ex_header)) = HStr ''M33'' \<and>
   build_fits_keywords ex_header ''OBJECT'' = Some [\<lparr>kw_value = ''M31'', kw_comment = []\<rparr>]"
  by (simp add: build_fits_keywords_def keyword_step_def hkeys_def ex_header_def ex_cards_def)

section \<open>The fallback write\<close>

text \<open>
  C3, as amended. When the write with the metadata attached fails, the worker makes the
  fallback call without metadata, once, if and only if the text of the exception
  contains \<open>tuple index out of range\<close>, whatever the class of the exception; the outcome
  of the worker is then the outcome of the fallback call. In every other case no second
  call is made and the exception of the first call is the outcome.
\<close>

theorem fallback_decided_by_message:
  assumes "getdata cd fp = Inr data0" and "getheader cd fp = Inr hdr"
    and "xisf_write cd (metadata_call xp (add_channel_axis data0) c s l a (build_fits_keywords hdr)) = Inl e"
  shows "convert_fits_to_xisf cd fp xp c s l a =
     (if str_contains ''tuple index out of range'' (exn_str e)
      then ([metadata_call xp (add_channel_axis data0) c s l a (build_fits_keywords hdr),
             fallback_call xp (add_channel_axis data0) c s l a],
            xisf_write cd (fallback_call xp (add_channel_axis data0) c s l a))
      else ([metadata_call xp (add_channel_axis data0) c s l a (build_fits_keywords hdr)], Inl e))"
  using assms by (simp add: convert_fits_to_xisf_def Let_def)

theorem fallback_decided_by_message_witness:
  "convert_fits_to_xisf (ex_codecs write_rejects_metadata) ''in/a.fits'' ''out/a.xisf'' ''zlib'' True 6 ''app'' =
     ([metadata_call ''out/a.xisf'' (add_channel_axis ex_image) ''zlib'' True 6 ''app'' (build_fits_keywords ex_header),
       fallback_call ''out/a.xisf'' (add_channel_axis ex_image) ''zlib'' True 6 ''app''],
      Inr (48, ''zlib'')) \<and>
   convert_fits_to_xisf (ex_codecs write_disk_full) ''in/a.fits'' ''out/a.xisf'' ''zlib'' True 6 ''app'' =
     ([metadata_call ''out/a.xisf'' (add_channel_axis ex_image) ''zlib'' True 6 ''app'' (build_fits_keywords ex_header)],
      Inl (Exn OSError ''[Errno 28] No space left on device''))"
proof -
  have r1: "getdata (ex_codecs wr) ''in/a.fits'' = Inr ex_image"
    and r2: "getheader (ex_codecs wr) ''in/a.fits'' = Inr ex_header" for wr
    by (simp_all add: ex_codecs_def)
  have w1: "xisf_write (ex_codecs write_rejects_metadata)
       (metadata_call ''out/a.xisf'' (add_channel_axis ex_image) ''zlib'' True 6 ''app'' (build_fits_keywords ex_header))
       = Inl (Exn IndexError ''tuple index out of range'')"
    by (simp add: ex_codecs_def write_rejects_metadata_def metadata_call_def)
  have w2: "xisf_write (ex_codecs write_disk_full)
       (metadata_call ''out/a.xisf'' (add_channel_axis ex_image) ''zlib'' True 6 ''app'' (build_fits_keywords ex_header))
       = Inl (Exn OSError ''[Errno 28] No space left on device'')"
    by (simp add: ex_codecs_def write_disk_full_def)
  have f: "xisf_write (ex_codecs write_rejects_metadata)
       (fallback_call ''out/a.xisf'' (add_channel_axis ex_image) ''zlib'' True 6 ''app'') = Inr (48, ''zlib'')"
    by (simp add: ex_codecs_def write_rejects_metadata_def write_ok_def fallback_call_def
                  add_channel_axis_def newaxis_last_def ex_image_def ndim_def)
  show ?thesis
    using fallback_decided_by_message [OF r1 r2 w1] fallback_decided_by_message [OF r1 r2 w2]
    by (simp add: f)
qed

text \<open>
  C3 as stated fails: the encoder refuses the destination with a permission error, an
  \<open>OSError\<close> whose text quotes the path; the source file is named
  \<open>tuple index out of range.fits\<close>, so the text contains the phrase the worker looks
  for, and the write is retried although the failure is not about the metadata.
\<close>

theorem permission_error_is_retried:
  "xisf_write (ex_codecs write_denied)
     (metadata_call ''out/./tuple index out of range.xisf'' (add_channel_axis ex_image)
        ''zlib'' True 6 ''app'' (build_fits_keywords ex_header)) =
     Inl (Exn OSError (''[Errno 13] Permission denied: '' @ [CHR 0x27] @
                       ''out/./tuple index out of range.xisf'' @ [CHR 0x27])) \<and>
   convert_fits_to_xisf (ex_codecs write_denied) ''in/tuple index out of range.fits''
       ''out/./tuple index out of range.xisf'' ''zlib'' True 6 ''app'' =
     ([metadata_call ''out/./tuple index out of range.xisf'' (add_channel_axis ex_image)
         ''zlib'' True 6 ''app'' (build_fits_keywords ex_header),
       fallback_call ''out/./tuple index out of range.xisf'' (add_channel_axis ex_image)
         ''zlib'' True 6 ''app''],
      Inl (Exn OSError (''[Errno 13] Permission denied: '' @ [CHR 0x27] @
                        ''out/./tuple index out of range.xisf'' @ [CHR 0x27])))"
  by (simp add: convert_fits_to_xisf_def ex_codecs_def write_denied_def metadata_call_def
                fallback_call_def Let_def)

section \<open>The scheduler never raises and touches only the source of a completed task\<close>

lemma os_remove_cases:
  "os_remove p w =
     (if files w p \<noteq> None \<and> p \<notin> denied w
      then (Inr (), w\<lparr>events := events w @ [Remove p], files := (files w)(p := None)\<rparr>)
      else (Inl (Exn OSError (if files w p = None then ''[Errno 2] No such file or directory''
                               else ''[Errno 13] Permission denied'')),
            w\<lparr>events := events w @ [Remove p]\<rparr>))"
  by (simp add: os_remove_def emit_def Let_def)

lemma decide_delete_returns: "\<exists>b. fst (decide_delete cfg src w) = Inr b"
  by (auto simp: decide_delete_def os_getmtime_def Let_def split: option.splits)

lemma delete_or_keep_returns: "fst (delete_or_keep cfg src b w) = Inr ()"
  by (simp add: delete_or_keep_def os_remove_cases)

lemma retire_returns: "fst (retire cfg src w) = Inr ()"
proof (cases "decide_delete cfg src w")
  case (Pair r w1)
  with decide_delete_returns [of cfg src w] obtain b where "r = Inr b" by auto
  with Pair show ?thesis by (simp add: retire_def delete_or_keep_returns)
qed


lemma retire_other_source:
  "p \<noteq> src \<Longrightarrow> files (snd (retire cfg src w)) p = files w p \<and>
     (Remove p \<in> set (events (snd (retire cfg src w))) \<longrightarrow> Remove p \<in> set (events w))"
  by (simp add: retire_def decide_delete_def delete_or_keep_def os_getmtime_def os_remove_cases
                emit_def Let_def split: option.splits)

lemma handle_future_returns: "fst (handle_future cfg t res w) = Inr ()"
  by (simp add: handle_future_def split: prod.splits sum.splits)

lemma handle_future_keeps:
  assumes "fst t \<noteq> p \<or> (\<exists>e. res = Inl e)"
  shows "files (snd (handle_future cfg t res w)) p = files w p \<and>
     (Remove p \<in> set (events (snd (handle_future cfg t res w))) \<longrightarrow> Remove p \<in> set (events w))"
proof (cases res)
  case (Inl e)
  then show ?thesis by (simp add: handle_future_def try_block_def emit_def)
next
  case (Inr r)
  obtain n u where r: "r = (n, u)" by (cases r)
  from Inr assms have ne: "p \<noteq> fst t" by auto
  obtain x w1 where rt: "retire cfg (fst t) (emit (SuccessNotice (fst t) (snd t) n u) w) = (x, w1)"
    by (cases "retire cfg (fst t) (emit (SuccessNotice (fst t) (snd t) n u) w)")
  have x: "x = Inr ()"
    using retire_returns [of cfg "fst t" "emit (SuccessNotice (fst t) (snd t) n u) w"] rt by simp
  have k: "files w1 p = files w p \<and> (Remove p \<in> set (events w1) \<longrightarrow> Remove p \<in> set (events w))"
    using retire_other_source [OF ne, of cfg "emit (SuccessNotice (fst t) (snd t) n u) w"] rt
    by (simp add: emit_def)
  show ?thesis using Inr r rt x k by (simp add: handle_future_def try_block_def)
qed

lemma worker_effect_frame:
  "events (worker_effect cfg ev t w) = events w \<and> dirs (worker_effect cfg ev t w) = dirs w \<and>
   denied (worker_effect cfg ev t w) = denied w \<and> clock (worker_effect cfg ev t w) = clock w \<and>
   dom (files w) \<subseteq> dom (files (worker_effect cfg ev t w))"
  by (auto simp: worker_effect_def split: sum.splits prod.splits)

lemma collect_keeps:
  assumes "\<forall>t \<in> set ts. fst t = p \<longrightarrow> (\<exists>e. future_result cfg ev t = Inl e)"
  shows "(p \<in> dom (files w) \<longrightarrow> p \<in> dom (files (snd (collect cfg ev ts w)))) \<and>
     (Remove p \<in> set (events (snd (collect cfg ev ts w))) \<longrightarrow> Remove p \<in> set (events w))"
  using assms
proof (induction ts arbitrary: w)
  case Nil
  show ?case by simp
next
  case (Cons t ts)
  let ?we = "worker_effect cfg ev t w"
  obtain x w1 where h: "handle_future cfg t (future_result cfg ev t) ?we = (x, w1)"
    by (cases "handle_future cfg t (future_result cfg ev t) ?we")
  have x: "x = Inr ()" using handle_future_returns [of cfg t "future_result cfg ev t" ?we] h by simp
  have "fst t \<noteq> p \<or> (\<exists>e. future_result cfg ev t = Inl e)" using Cons.prems by auto
  from handle_future_keeps [OF this, of cfg ?we] h
  have k: "files w1 p = files ?we p \<and> (Remove p \<in> set (events w1) \<longrightarrow> Remove p \<in> set (events ?we))"
    by simp
  note f = worker_effect_frame [of cfg ev t w]
  have k': "(p \<in> dom (files w) \<longrightarrow> p \<in> dom (files w1)) \<and>
      (Remove p \<in> set (events w1) \<longrightarrow> Remove p \<in> set (events w))"
    using k f by (auto simp: domIff)
  have "\<forall>t \<in> set ts. fst t = p \<longrightarrow> (\<exists>e. future_result cfg ev t = Inl e)" using Cons.prems by simp
  from Cons.IH [OF this, of w1] h x k' show ?case by simp
qed



section \<open>What the enumeration leaves alone\<close>

lemma enum_frame_refl: "enum_frame w w"
  by (simp add: enum_frame_def)

lemma enum_frame_trans:
  assumes "enum_frame w w1" and "enum_frame w1 w2"
  shows "enum_frame w w2"
proof -
  from assms(1) have a: "dom (files w) \<subseteq> dom (files w1)" "dirs w \<subseteq> dirs w1"
      "denied w1 = denied w" "clock w1 = clock w"
    by (simp_all add: enum_frame_def)
  from assms(2) have b: "dom (files w1) \<subseteq> dom (files w2)" "dirs w1 \<subseteq> dirs w2"
      "denied w2 = denied w1" "clock w2 = clock w1"
    by (simp_all add: enum_frame_def)
  from assms(1) obtain e1 where e1: "events w1 = events w @ e1" "list_all is_enumeration_event e1"
    unfolding enum_frame_def by blast
  from assms(2) obtain e2 where e2: "events w2 = events w1 @ e2" "list_all is_enumeration_event e2"
    unfolding enum_frame_def by blast
  have "events w2 = events w @ (e1 @ e2) \<and> list_all is_enumeration_event (e1 @ e2)"
    using e1 e2 by simp
  then have ex: "\<exists>evs. events w2 = events w @ evs \<and> list_all is_enumeration_event evs"
    by blast
  have f: "dom (files w) \<subseteq> dom (files w2)" using a(1) b(1) by (rule subset_trans)
  have d: "dirs w \<subseteq> dirs w2" using a(2) b(2) by (rule subset_trans)
  have r: "denied w2 = denied w" "clock w2 = clock w" using a b by simp_all
  show ?thesis unfolding enum_frame_def using ex f d r by simp
qed

lemma enum_frame_emit: "is_enumeration_event e \<Longrightarrow> enum_frame w (emit e w)"
  by (simp add: enum_frame_def emit_def)

lemma os_makedirs_frame: "enum_frame w (snd (os_makedirs p w))"
  by (simp add: os_makedirs_def enum_frame_def emit_def Let_def subset_insertI)


lemma shutil_copy2_frame: "enum_frame w (snd (shutil_copy2 src dst w))"
  by (auto simp: shutil_copy2_def enum_frame_def emit_def Let_def split: option.splits)

lemma process_file_frame: "enum_frame w (snd (process_file cfg r d fn ts w))"
proof (cases "is_convertible fn")
  case True
  then show ?thesis
    by (simp add: process_file_def Let_def enum_frame_refl enum_frame_emit)
next
  case False
  obtain x w1 where c: "shutil_copy2 (path_join r fn) (path_join d fn) w = (x, w1)"
    by (cases "shutil_copy2 (path_join r fn) (path_join d fn) w")
  have "enum_frame w w1"
    using shutil_copy2_frame [of w "path_join r fn" "path_join d fn"] c by simp
  with False c show ?thesis
    by (simp add: process_file_def Let_def split: sum.splits)
qed

lemma process_files_frame: "enum_frame w (snd (process_files cfg r d fns ts w))"
proof (induction fns arbitrary: ts w)
  case Nil
  show ?case by (simp add: enum_frame_refl)
next
  case (Cons fn fns)
  obtain x w1 where s: "process_file cfg r d fn ts w = (x, w1)"
    by (cases "process_file cfg r d fn ts w")
  have f1: "enum_frame w w1" using process_file_frame [of w cfg r d fn ts] s by simp
  show ?case
  proof (cases x)
    case (Inl e)
    with s f1 show ?thesis by simp
  next
    case (Inr ts1)
    have "enum_frame w1 (snd (process_files cfg r d fns ts1 w1))" by (rule Cons.IH)
    with f1 have "enum_frame w (snd (process_files cfg r d fns ts1 w1))" by (rule enum_frame_trans)
    with s Inr show ?thesis by simp
  qed
qed

lemma walk_step_frame: "enum_frame w (snd (walk_step cfg ev entry ts w))"
proof -
  obtain r ds fns where e: "entry = (r, ds, fns)" by (cases entry)
  obtain x w1 where m: "os_makedirs (dest_root_of cfg ev r) w = (x, w1)"
    by (cases "os_makedirs (dest_root_of cfg ev r) w")
  have f1: "enum_frame w w1" using os_makedirs_frame [of w "dest_root_of cfg ev r"] m by simp
  show ?thesis
  proof (cases x)
    case (Inl err)
    with e m f1 show ?thesis by (simp add: walk_step_def)
  next
    case (Inr u)
    have "enum_frame w1 (snd (process_files cfg r (dest_root_of cfg ev r) fns ts w1))"
      by (rule process_files_frame)
    with f1 have "enum_frame w (snd (process_files cfg r (dest_root_of cfg ev r) fns ts w1))"
      by (rule enum_frame_trans)
    with e m Inr show ?thesis by (simp add: walk_step_def)
  qed
qed

lemma walk_loop_frame: "enum_frame w (snd (walk_loop cfg ev entries ts w))"
proof (induction entries arbitrary: ts w)
  case Nil
  show ?case by (simp add: enum_frame_refl)
next
  case (Cons entry entries)
  obtain x w1 where s: "walk_step cfg ev entry ts w = (x, w1)"
    by (cases "walk_step cfg ev entry ts w")
  have f1: "enum_frame w w1" using walk_step_frame [of w cfg ev entry ts] s by simp
  show ?case
  proof (cases x)
    case (Inl e)
    with s f1 show ?thesis by simp
  next
    case (Inr ts1)
    have "enum_frame w1 (snd (walk_loop cfg ev entries ts1 w1))" by (rule Cons.IH)
    with f1 have "enum_frame w (snd (walk_loop cfg ev entries ts1 w1))" by (rule enum_frame_trans)
    with s Inr show ?thesis by simp
  qed
qed

section \<open>The retirement decision\<close>

text \<open>
  C1. For a task whose future returned: with \<open>delete_older_than_days = -1\<close> nothing but
  the success line happens and no file changes. When the source exists and the platform
  lets it be removed: with \<open>0\<close> the source is removed; with \<open>N > 0\<close> the modification
  time is the one the source has in the world in which the decision is taken, the age in
  days is \<open>(now - mtime) / 86400\<close>, the source is removed when that age is at least \<open>N\<close>,
  and otherwise no file changes and the too recent notice is printed.
\<close>

theorem retirement_follows_threshold:
  "(delete_older_than_days cfg = - 1 \<longrightarrow>
      files (snd (handle_future cfg (src, dst) (Inr (nbytes, used)) w)) = files w \<and>
      events (snd (handle_future cfg (src, dst) (Inr (nbytes, used)) w)) =
        events w @ [SuccessNotice src dst nbytes used]) \<and>
   (files w src = Some f \<and> src \<notin> denied w \<longrightarrow>
      (delete_older_than_days cfg = 0 \<longrightarrow>
         files (snd (handle_future cfg (src, dst) (Inr (nbytes, used)) w)) = (files w)(src := None) \<and>
         events (snd (handle_future cfg (src, dst) (Inr (nbytes, used)) w)) =
           events w @ [SuccessNotice src dst nbytes used, Remove src, DeletedNotice src]) \<and>
      (0 < delete_older_than_days cfg \<longrightarrow>
         (real_of_int (delete_older_than_days cfg) \<le> (clock w - mtime f) / 86400 \<longrightarrow>
            files (snd (handle_future cfg (src, dst) (Inr (nbytes, used)) w)) = (files w)(src := None) \<and>
            events (snd (handle_future cfg (src, dst) (Inr (nbytes, used)) w)) =
              events w @ [SuccessNotice src dst nbytes used, Remove src, DeletedNotice src]) \<and>
         ((clock w - mtime f) / 86400 < real_of_int (delete_older_than_days cfg) \<longrightarrow>
            files (snd (handle_future cfg (src, dst) (Inr (nbytes, used)) w)) = files w \<and>
            events (snd (handle_future cfg (src, dst) (Inr (nbytes, used)) w)) =
              events w @ [SuccessNotice src dst nbytes used, TooRecentNotice src])))"
  by (auto simp: handle_future_def try_block_def retire_def decide_delete_def delete_or_keep_def
                os_getmtime_def os_remove_cases emit_def Let_def)

theorem retirement_follows_threshold_witness:
  "files (snd (handle_future (ex_config True 5) (''in/a.fits'', ''out/./a.xisf'')
                 (Inr (48, ''zlib'')) (ex_world 518400))) ''in/a.fits'' = None \<and>
   events (snd (handle_future (ex_config True 5) (''in/a.fits'', ''out/./a.xisf'')
                 (Inr (48, ''zlib'')) (ex_world 518400))) =
     [SuccessNotice ''in/a.fits'' ''out/./a.xisf'' 48 ''zlib'', Remove ''in/a.fits'',
      DeletedNotice ''in/a.fits''] \<and>
   files (snd (handle_future (ex_config True 5) (''in/a.fits'', ''out/./a.xisf'')
                 (Inr (48, ''zlib'')) (ex_world 345600))) ''in/a.fits'' =
     Some \<lparr>mtime = 0, content = ''SIMPLE''\<rparr> \<and>
   events (snd (handle_future (ex_config True 5) (''in/a.fits'', ''out/./a.xisf'')
                 (Inr (48, ''zlib'')) (ex_world 345600))) =
     [SuccessNotice ''in/a.fits'' ''out/./a.xisf'' 48 ''zlib'', TooRecentNotice ''in/a.fits''] \<and>
   files (snd (handle_future (ex_config True 0) (''in/a.fits'', ''out/./a.xisf'')
                 (Inr (48, ''zlib'')) (ex_world 60))) ''in/a.fits'' = None \<and>
   files (snd (handle_future (ex_config True (- 1)) (''in/a.fits'', ''out/./a.xisf'')
                 (Inr (48, ''zlib'')) (ex_world 518400))) ''in/a.fits'' =
     Some \<lparr>mtime = 0, content = ''SIMPLE''\<rparr>"
proof -
  have f: "files (ex_world t) ''in/a.fits'' = Some \<lparr>mtime = 0, content = ''SIMPLE''\<rparr>"
    and d: "''in/a.fits'' \<notin> denied (ex_world t)"
    and c: "clock (ex_world t) = t" and e: "events (ex_world t) = []" for t
    by (simp_all add: ex_world_def)
  have k: "delete_older_than_days (ex_config s n) = n" for s n
    by (simp add: ex_config_def)
  show ?thesis
    using retirement_follows_threshold [where cfg = "ex_config True 5" and w = "ex_world 518400"
        and src = "''in/a.fits''" and f = "\<lparr>mtime = 0, content = ''SIMPLE''\<rparr>"
        and dst = "''out/./a.xisf''" and nbytes = 48 and used = "''zlib''"]
      retirement_follows_threshold [where cfg = "ex_config True 5" and w = "ex_world 345600"
        and src = "''in/a.fits''" and f = "\<lparr>mtime = 0, content = ''SIMPLE''\<rparr>"
        and dst = "''out/./a.xisf''" and nbytes = 48 and used = "''zlib''"]
      retirement_follows_threshold [where cfg = "ex_config True 0" and w = "ex_world 60"
        and src = "''in/a.fits''" and f = "\<lparr>mtime = 0, content = ''SIMPLE''\<rparr>"
        and dst = "''out/./a.xisf''" and nbytes = 48 and used = "''zlib''"]
      retirement_follows_threshold [where cfg = "ex_config True (- 1)" and w = "ex_world 518400"
        and src = "''in/a.fits''" and f = "\<lparr>mtime = 0, content = ''SIMPLE''\<rparr>"
        and dst = "''out/./a.xisf''" and nbytes = 48 and used = "''zlib''"]
    by (simp add: f d c e k)
qed

section \<open>Failures stay inside their task\<close>



section \<open>A failed conversion never costs the source\<close>

lemma enum_frame_keeps:
  assumes "enum_frame w w'"
  shows "(p \<in> dom (files w) \<longrightarrow> p \<in> dom (files w')) \<and>
         (Remove p \<in> set (events w') \<longrightarrow> Remove p \<in> set (events w))"
proof -
  from assms obtain evs where e: "events w' = events w @ evs" "list_all is_enumeration_event evs"
    unfolding enum_frame_def by blast
  have "Remove p \<notin> set evs"
  proof
    assume "Remove p \<in> set evs"
    with e(2) have "is_enumeration_event (Remove p)" by (auto simp: list_all_iff)
    then show False by simp
  qed
  moreover from assms have "dom (files w) \<subseteq> dom (files w')" by (simp add: enum_frame_def)
  ultimately show ?thesis using e(1) by auto
qed

lemma enum_frame_exists: "enum_frame w w' \<Longrightarrow> os_exists w p \<Longrightarrow> os_exists w' p"
  by (auto simp: enum_frame_def os_exists_def)

text \<open>
  C2. Take a source such that every future of the run whose task has that source holds an
  exception. Then the run, whatever \<open>delete_older_than_days\<close> is and however it ends,
  leaves the source in place if it was there, and makes no call of \<open>os.remove\<close> on it:
  the retirement code is reached only from a future that returned.
\<close>

theorem failed_conversion_keeps_source:
  assumes "\<forall>t \<in> set (run_futures cfg ev w). fst t = src \<longrightarrow> (\<exists>e. future_result cfg ev t = Inl e)"
  shows "(src \<in> dom (files w) \<longrightarrow> src \<in> dom (files (snd (main cfg ev w)))) \<and>
         (Remove src \<in> set (events (snd (main cfg ev w))) \<longrightarrow> Remove src \<in> set (events w))"
proof (cases "os_isdir w (input_dir cfg)")
  case False
  then show ?thesis by (simp add: main_def emit_def)
next
  case True
  obtain x w1 where m: "os_makedirs (output_dir cfg) w = (x, w1)"
    by (cases "os_makedirs (output_dir cfg) w")
  have f1: "enum_frame w w1" using os_makedirs_frame [of w "output_dir cfg"] m by simp
  show ?thesis
  proof (cases x)
    case (Inl e)
    with True m enum_frame_keeps [OF f1, of src] show ?thesis by (simp add: main_def)
  next
    case (Inr u)
    obtain y w2 where en: "enumerate_tree cfg ev w1 = (y, w2)"
      by (cases "enumerate_tree cfg ev w1")
    have "enum_frame w1 w2"
      using walk_loop_frame [of w1 cfg ev "os_walk ev (input_dir cfg)" "[]"] en
      by (simp add: enumerate_tree_def)
    with f1 have f2: "enum_frame w w2" by (rule enum_frame_trans)
    note k2 = enum_frame_keeps [OF f2, of src]
    show ?thesis
    proof (cases y)
      case (Inl e)
      with True m Inr en k2 show ?thesis by (simp add: main_def)
    next
      case tasks: (Inr fits_tasks)
      let ?w3 = "emit (ConvertingNotice (length fits_tasks) (workers cfg)) w2"
      let ?w4 = "submit_all fits_tasks ?w3"
      have k4: "files ?w4 = files w2 \<and> (Remove src \<in> set (events ?w4) \<longrightarrow> Remove src \<in> set (events w2))"
        by (auto simp: submit_all_def emit_def)
      show ?thesis
      proof (cases "workers cfg \<le> 0")
        case w0: True
        with True m Inr en tasks k2 show ?thesis by (simp add: main_def Let_def emit_def)
      next
        case w1: False
        with True m Inr en tasks have rf: "run_futures cfg ev w = as_completed ev fits_tasks"
          by (simp add: run_futures_def)
        with assms have "\<forall>t \<in> set (as_completed ev fits_tasks). fst t = src \<longrightarrow>
            (\<exists>e. future_result cfg ev t = Inl e)" by simp
        from collect_keeps [OF this, of ?w4]
        have k5: "(src \<in> dom (files ?w4) \<longrightarrow>
              src \<in> dom (files (snd (collect cfg ev (as_completed ev fits_tasks) ?w4)))) \<and>
           (Remove src \<in> set (events (snd (collect cfg ev (as_completed ev fits_tasks) ?w4))) \<longrightarrow>
              Remove src \<in> set (events ?w4))" .
        have mw: "snd (main cfg ev w) = snd (collect cfg ev (as_completed ev fits_tasks) ?w4)"
          using True m Inr en tasks w1
          by (simp add: main_def Let_def split: prod.splits sum.splits)
        show ?thesis using mw k5 k4 k2 by (auto simp: domIff)
      qed
    qed
  qed
qed

theorem failed_conversion_keeps_source_witness:
  "''in/sub/b.fits'' \<in> dom (files (ex_world 60)) \<and>
   ''in/sub/b.fits'' \<in> dom (files (snd (main (ex_config True 0)
        (ex_env (write_full_for ''out/sub/b.xisf'') ex_walk) (ex_world 60)))) \<and>
   Remove ''in/sub/b.fits'' \<notin> set (events (snd (main (ex_config True 0)
        (ex_env (write_full_for ''out/sub/b.xisf'') ex_walk) (ex_world 60)))) \<and>
   Remove ''in/a.fits'' \<in> set (events (snd (main (ex_config True 0)
        (ex_env (write_full_for ''out/sub/b.xisf'') ex_walk) (ex_world 60))))"
proof -
  let ?cfg = "ex_config True 0"
  let ?ev = "ex_env (write_full_for ''out/sub/b.xisf'') ex_walk"
  have rf: "run_futures ?cfg ?ev (ex_world 60) =
      [(''in/sub/b.fits'', ''out/sub/b.xisf''), (''in/a.fits'', ''out/./a.xisf'')]"
    by code_simp
  have fr: "future_result ?cfg ?ev (''in/sub/b.fits'', ''out/sub/b.xisf'') =
      Inl (Exn OSError ''[Errno 28] No space left on device'')"
    by code_simp
  have h: "\<forall>t \<in> set (run_futures ?cfg ?ev (ex_world 60)). fst t = ''in/sub/b.fits'' \<longrightarrow>
      (\<exists>e. future_result ?cfg ?ev t = Inl e)"
    by (simp add: rf fr)
  have d: "''in/sub/b.fits'' \<in> dom (files (ex_world 60))" "events (ex_world 60) = []"
    by (simp_all add: ex_world_def)
  have a: "Remove ''in/a.fits'' \<in> set (events (snd (main ?cfg ?ev (ex_world 60))))"
    by code_simp
  show ?thesis
    using failed_conversion_keeps_source [OF h] d a by simp
qed

section \<open>Skipping what is already converted\<close>

lemma process_file_tasks:
  "fst (process_file cfg r d fn ts w) = Inr ts' \<Longrightarrow>
     (if is_convertible fn \<and> \<not> (os_exists w (xisf_dst d fn) \<and> skip_existing cfg)
      then ts' = ts @ [(path_join r fn, xisf_dst d fn)] else ts' = ts)"
  by (auto simp: process_file_def Let_def split: prod.splits sum.splits if_splits)

lemma process_files_skip_all:
  assumes "skip_existing cfg"
    and "\<forall>fn \<in> set fns. is_convertible fn \<longrightarrow> os_exists w (xisf_dst d fn)"
    and "fst (process_files cfg r d fns ts w) = Inr ts'"
  shows "ts' = ts"
  using assms(2,3)
proof (induction fns arbitrary: w)
  case Nil
  then show ?case by simp
next
  case (Cons fn fns)
  obtain x w1 where s: "process_file cfg r d fn ts w = (x, w1)"
    by (cases "process_file cfg r d fn ts w")
  have f1: "enum_frame w w1" using process_file_frame [of w cfg r d fn ts] s by simp
  show ?case
  proof (cases x)
    case (Inl e)
    with s Cons.prems(2) show ?thesis by simp
  next
    case (Inr ts1)
    have "ts1 = ts"
      using process_file_tasks [of cfg r d fn ts w ts1] s Inr Cons.prems(1) assms(1) by auto
    moreover have "\<forall>fn \<in> set fns. is_convertible fn \<longrightarrow> os_exists w1 (xisf_dst d fn)"
      using Cons.prems(1) enum_frame_exists [OF f1] by auto
    moreover have "fst (process_files cfg r d fns ts1 w1) = Inr ts'"
      using Cons.prems(2) s Inr by simp
    ultimately show ?thesis using Cons.IH [of w1] by simp
  qed
qed

lemma walk_loop_skip_all:
  assumes "skip_existing cfg"
    and "\<forall>entry \<in> set entries. \<forall>fn \<in> set (snd (snd entry)).
           is_convertible fn \<longrightarrow> os_exists w (xisf_dst (dest_root_of cfg ev (fst entry)) fn)"
    and "fst (walk_loop cfg ev entries ts w) = Inr ts'"
  shows "ts' = ts"
  using assms(2,3)
proof (induction entries arbitrary: w)
  case Nil
  then show ?case by simp
next
  case (Cons entry entries)
  obtain r ds fns where e: "entry = (r, ds, fns)" by (cases entry)
  obtain x w1 where s: "walk_step cfg ev entry ts w = (x, w1)"
    by (cases "walk_step cfg ev entry ts w")
  have f1: "enum_frame w w1" using walk_step_frame [of w cfg ev entry ts] s by simp
  show ?case
  proof (cases x)
    case (Inl err)
    with s Cons.prems(2) show ?thesis by simp
  next
    case (Inr ts1)
    obtain y wm where m: "os_makedirs (dest_root_of cfg ev r) w = (y, wm)"
      by (cases "os_makedirs (dest_root_of cfg ev r) w")
    have fm: "enum_frame w wm" using os_makedirs_frame [of w "dest_root_of cfg ev r"] m by simp
    have y: "y = Inr ()" using s Inr e m by (cases y) (auto simp: walk_step_def)
    have pf: "fst (process_files cfg r (dest_root_of cfg ev r) fns ts wm) = Inr ts1"
      using s Inr e m y by (simp add: walk_step_def)
    have "\<forall>fn \<in> set fns. is_convertible fn \<longrightarrow> os_exists wm (xisf_dst (dest_root_of cfg ev r) fn)"
      using Cons.prems(1) e enum_frame_exists [OF fm] by auto
    from process_files_skip_all [OF assms(1) this pf] have t1: "ts1 = ts" .
    have "\<forall>entry \<in> set entries. \<forall>fn \<in> set (snd (snd entry)).
           is_convertible fn \<longrightarrow> os_exists w1 (xisf_dst (dest_root_of cfg ev (fst entry)) fn)"
      using Cons.prems(1) enum_frame_exists [OF f1] by auto
    moreover have "fst (walk_loop cfg ev entries ts1 w1) = Inr ts'"
      using Cons.prems(2) s Inr by simp
    ultimately show ?thesis using Cons.IH [of w1] t1 by simp
  qed
qed

text \<open>Every task of an enumeration comes from a convertible name of the walk.\<close>

lemma process_files_origin:
  assumes "process_files cfg r d fns ts w = (Inr ts', w')"
  shows "\<forall>t \<in> set ts'. t \<in> set ts \<or>
           (\<exists>fn \<in> set fns. is_convertible fn \<and> t = (path_join r fn, xisf_dst d fn))"
  using assms
proof (induction fns arbitrary: ts w)
  case Nil
  then show ?case by simp
next
  case (Cons fn fns)
  obtain x w1 where s: "process_file cfg r d fn ts w = (x, w1)"
    by (cases "process_file cfg r d fn ts w")
  from Cons.prems s obtain ts1 where x: "x = Inr ts1" by (cases x) auto
  with Cons.prems s have rest: "process_files cfg r d fns ts1 w1 = (Inr ts', w')" by simp
  have one: "ts1 = ts \<or> (is_convertible fn \<and> ts1 = ts @ [(path_join r fn, xisf_dst d fn)])"
    using process_file_tasks [of cfg r d fn ts w ts1] s x by (auto split: if_splits)
  from Cons.IH [OF rest] one show ?case by auto
qed

lemma walk_loop_origin:
  assumes "walk_loop cfg ev entries ts w = (Inr ts', w')"
  shows "\<forall>t \<in> set ts'. t \<in> set ts \<or>
           (\<exists>entry \<in> set entries. \<exists>fn \<in> set (snd (snd entry)). is_convertible fn \<and>
              t = (path_join (fst entry) fn, xisf_dst (dest_root_of cfg ev (fst entry)) fn))"
  using assms
proof (induction entries arbitrary: ts w)
  case Nil
  then show ?case by simp
next
  case (Cons entry entries)
  obtain r ds fns where e: "entry = (r, ds, fns)" by (cases entry)
  obtain x w1 where s: "walk_step cfg ev entry ts w = (x, w1)"
    by (cases "walk_step cfg ev entry ts w")
  from Cons.prems s obtain ts1 where x: "x = Inr ts1" by (cases x) auto
  with Cons.prems s have rest: "walk_loop cfg ev entries ts1 w1 = (Inr ts', w')" by simp
  obtain y wm where m: "os_makedirs (dest_root_of cfg ev r) w = (y, wm)"
    by (cases "os_makedirs (dest_root_of cfg ev r) w")
  have y: "y = Inr ()" using s x e m by (cases y) (auto simp: walk_step_def)
  have "process_files cfg r (dest_root_of cfg ev r) fns ts wm = (Inr ts1, w1)"
    using s x e m y by (simp add: walk_step_def)
  from process_files_origin [OF this]
  have one: "\<forall>t \<in> set ts1. t \<in> set ts \<or>
      (\<exists>fn \<in> set fns. is_convertible fn \<and> t = (path_join r fn, xisf_dst (dest_root_of cfg ev r) fn))" .
  show ?case
  proof
    fix t assume "t \<in> set ts'"
    with Cons.IH [OF rest] have "t \<in> set ts1 \<or>
       (\<exists>entry \<in> set entries. \<exists>fn \<in> set (snd (snd entry)). is_convertible fn \<and>
          t = (path_join (fst entry) fn, xisf_dst (dest_root_of cfg ev (fst entry)) fn))" by blast
    then show "t \<in> set ts \<or>
       (\<exists>entry \<in> set (entry # entries). \<exists>fn \<in> set (snd (snd entry)). is_convertible fn \<and>
          t = (path_join (fst entry) fn, xisf_dst (dest_root_of cfg ev (fst entry)) fn))"
    proof
      assume "t \<in> set ts1"
      with one e show ?thesis by fastforce
    next
      assume "\<exists>entry \<in> set entries. \<exists>fn \<in> set (snd (snd entry)). is_convertible fn \<and>
          t = (path_join (fst entry) fn, xisf_dst (dest_root_of cfg ev (fst entry)) fn)"
      then show ?thesis by auto
    qed
  qed
qed

text \<open>
  What a run leaves behind: the worker of a future that returned has written the
  destination of its task, no source of a task is a destination, and the scheduler
  removes sources only.
\<close>

lemma worker_effect_written:
  "worker_effect cfg ev t w =
     (case future_result cfg ev t of
        Inl e \<Rightarrow> w
      | Inr r \<Rightarrow> w\<lparr>files := (files w)(snd t \<mapsto> \<lparr>mtime = clock w, content = []\<rparr>)\<rparr>)"
  by (auto simp: worker_effect_def future_result_def convert_fits_to_xisf_def Let_def
        metadata_call_def fallback_call_def split: sum.splits prod.splits if_splits)

lemma path_join_suffix: "\<exists>X. path_join r fn = X @ fn"
proof -
  have "path_join r fn = [] @ fn \<or> path_join r fn = r @ fn \<or> path_join r fn = (r @ ''/'') @ fn"
    by (simp add: path_join_def)
  then show ?thesis by blast
qed

lemma convertible_src_not_xisf:
  assumes "is_convertible fn"
  shows "path_join r fn \<noteq> q @ ''.xisf''"
proof
  assume eq: "path_join r fn = q @ ''.xisf''"
  obtain X where X: "path_join r fn = X @ fn" using path_join_suffix by blast
  have l5: "length ''.fits'' = (5::nat)" by simp
  from assms have "length ''.fits'' \<le> length (map lower_char fn) \<and>
      drop (length (map lower_char fn) - length ''.fits'') (map lower_char fn) = ''.fits''"
    by (simp only: is_convertible_def endswith_def str_lower_def)
  then have len: "5 \<le> length fn" and m: "map lower_char (drop (length fn - 5) fn) = ''.fits''"
    unfolding l5 length_map drop_map by simp_all
  have a: "drop (length (X @ fn) - 5) (X @ fn) = drop (length fn - 5) fn" using len by simp
  have b: "drop (length (q @ ''.xisf'') - 5) (q @ ''.xisf'') = ''.xisf''" by simp
  have c: "X @ fn = q @ ''.xisf''" using eq X by simp
  have "drop (length fn - 5) fn = ''.xisf''" by (metis a b c)
  with m have "map lower_char ''.xisf'' = ''.fits''" by simp
  moreover have "map lower_char ''.xisf'' \<noteq> ''.fits''" by code_simp
  ultimately show False by simp
qed

lemma retire_dirs: "dirs (snd (retire cfg src w)) = dirs w"
  by (simp add: retire_def decide_delete_def delete_or_keep_def os_getmtime_def os_remove_cases
                emit_def Let_def split: option.splits)

lemma handle_future_dirs: "dirs (snd (handle_future cfg t res w)) = dirs w"
proof (cases res)
  case (Inl e)
  then show ?thesis by (simp add: handle_future_def try_block_def emit_def)
next
  case (Inr r)
  obtain n u where r: "r = (n, u)" by (cases r)
  obtain x w1 where rt: "retire cfg (fst t) (emit (SuccessNotice (fst t) (snd t) n u) w) = (x, w1)"
    by (cases "retire cfg (fst t) (emit (SuccessNotice (fst t) (snd t) n u) w)")
  have x: "x = Inr ()"
    using retire_returns [of cfg "fst t" "emit (SuccessNotice (fst t) (snd t) n u) w"] rt by simp
  have "dirs w1 = dirs w"
    using retire_dirs [of cfg "fst t" "emit (SuccessNotice (fst t) (snd t) n u) w"] rt
    by (simp add: emit_def)
  then show ?thesis using Inr r rt x by (simp add: handle_future_def try_block_def)
qed

lemma collect_dirs: "dirs (snd (collect cfg ev ts w)) = dirs w"
proof (induction ts arbitrary: w)
  case Nil
  show ?case by simp
next
  case (Cons t ts)
  let ?we = "worker_effect cfg ev t w"
  obtain x w1 where h: "handle_future cfg t (future_result cfg ev t) ?we = (x, w1)"
    by (cases "handle_future cfg t (future_result cfg ev t) ?we")
  have x: "x = Inr ()" using handle_future_returns [of cfg t "future_result cfg ev t" ?we] h by simp
  have "dirs w1 = dirs w"
    using handle_future_dirs [of cfg t "future_result cfg ev t" ?we] h
      worker_effect_frame [of cfg ev t w] by simp
  then show ?case using h x Cons.IH [of w1] by simp
qed

lemma collect_exists_kept:
  assumes "\<forall>t \<in> set ts. fst t \<noteq> p" and "os_exists w p"
  shows "os_exists (snd (collect cfg ev ts w)) p"
proof -
  have "\<forall>t \<in> set ts. fst t = p \<longrightarrow> (\<exists>e. future_result cfg ev t = Inl e)" using assms(1) by auto
  from collect_keeps [OF this, of w]
  have "p \<in> dom (files w) \<longrightarrow> p \<in> dom (files (snd (collect cfg ev ts w)))" by simp
  then show ?thesis using assms(2) collect_dirs [of cfg ev ts w] by (auto simp: os_exists_def domIff)
qed

lemma collect_writes:
  assumes "t \<in> set ts" and "future_result cfg ev t = Inr r" and "\<forall>t' \<in> set ts. fst t' \<noteq> snd t"
  shows "os_exists (snd (collect cfg ev ts w)) (snd t)"
  using assms(1,3)
proof (induction ts arbitrary: w)
  case Nil
  then show ?case by simp
next
  case (Cons a ts)
  let ?we = "worker_effect cfg ev a w"
  obtain x w1 where h: "handle_future cfg a (future_result cfg ev a) ?we = (x, w1)"
    by (cases "handle_future cfg a (future_result cfg ev a) ?we")
  have x: "x = Inr ()" using handle_future_returns [of cfg a "future_result cfg ev a" ?we] h by simp
  have ns: "\<forall>t' \<in> set ts. fst t' \<noteq> snd t" using Cons.prems(2) by simp
  show ?case
  proof (cases "a = t")
    case True
    have "files ?we (snd t) \<noteq> None" using True assms(2) by (simp add: worker_effect_written)
    moreover have "fst a \<noteq> snd t \<or> (\<exists>e. future_result cfg ev a = Inl e)"
      using Cons.prems(2) by simp
    from handle_future_keeps [OF this, of cfg ?we] h
    have "files w1 (snd t) = files ?we (snd t)" by simp
    ultimately have "os_exists w1 (snd t)" by (simp add: os_exists_def)
    from collect_exists_kept [OF ns this] show ?thesis using h x by simp
  next
    case False
    then have "t \<in> set ts" using Cons.prems(1) by simp
    from Cons.IH [OF this ns, of w1] show ?thesis using h x by simp
  qed
qed

lemma process_files_covers:
  assumes "process_files cfg r d fns ts w = (Inr ts', w')"
  shows "set ts \<subseteq> set ts' \<and>
     (\<forall>fn \<in> set fns. is_convertible fn \<longrightarrow>
        os_exists w' (xisf_dst d fn) \<or> (path_join r fn, xisf_dst d fn) \<in> set ts')"
  using assms
proof (induction fns arbitrary: ts w)
  case Nil
  then show ?case by simp
next
  case (Cons fn fns)
  obtain x w1 where s: "process_file cfg r d fn ts w = (x, w1)"
    by (cases "process_file cfg r d fn ts w")
  from Cons.prems s obtain ts1 where x: "x = Inr ts1" by (cases x) auto
  with Cons.prems s have rest: "process_files cfg r d fns ts1 w1 = (Inr ts', w')" by simp
  have f1: "enum_frame w w1" using process_file_frame [of w cfg r d fn ts] s by simp
  have f2: "enum_frame w1 w'" using process_files_frame [of w1 cfg r d fns ts1] rest by simp
  note ih = Cons.IH [OF rest]
  have one: "if is_convertible fn \<and> \<not> (os_exists w (xisf_dst d fn) \<and> skip_existing cfg)
      then ts1 = ts @ [(path_join r fn, xisf_dst d fn)] else ts1 = ts"
    using process_file_tasks [of cfg r d fn ts w ts1] s x by simp
  have sub: "set ts \<subseteq> set ts'" using one ih by (auto split: if_splits)
  have here: "is_convertible fn \<longrightarrow>
        os_exists w' (xisf_dst d fn) \<or> (path_join r fn, xisf_dst d fn) \<in> set ts'"
  proof
    assume c: "is_convertible fn"
    show "os_exists w' (xisf_dst d fn) \<or> (path_join r fn, xisf_dst d fn) \<in> set ts'"
    proof (cases "os_exists w (xisf_dst d fn)")
      case True
      then have "os_exists w' (xisf_dst d fn)"
        using enum_frame_exists [OF f1] enum_frame_exists [OF f2] by blast
      then show ?thesis by simp
    next
      case False
      with one c have "(path_join r fn, xisf_dst d fn) \<in> set ts1" by simp
      with ih show ?thesis by auto
    qed
  qed
  show ?case using sub here ih by simp
qed

lemma process_files_missing:
  assumes "skip_existing cfg" and "process_files cfg r d fns ts w = (Inr ts', w')"
  shows "\<forall>t \<in> set ts'. t \<in> set ts \<or>
           (\<exists>fn \<in> set fns. is_convertible fn \<and> t = (path_join r fn, xisf_dst d fn) \<and>
              \<not> os_exists w (snd t))"
  using assms(2)
proof (induction fns arbitrary: ts w)
  case Nil
  then show ?case by simp
next
  case (Cons fn fns)
  obtain x w1 where s: "process_file cfg r d fn ts w = (x, w1)"
    by (cases "process_file cfg r d fn ts w")
  from Cons.prems s obtain ts1 where x: "x = Inr ts1" by (cases x) auto
  with Cons.prems s have rest: "process_files cfg r d fns ts1 w1 = (Inr ts', w')" by simp
  have f1: "enum_frame w w1" using process_file_frame [of w cfg r d fn ts] s by simp
  have one: "ts1 = ts \<or> (is_convertible fn \<and> \<not> os_exists w (xisf_dst d fn) \<and>
      ts1 = ts @ [(path_join r fn, xisf_dst d fn)])"
    using process_file_tasks [of cfg r d fn ts w ts1] s x assms(1) by (auto split: if_splits)
  show ?case
  proof
    fix t assume "t \<in> set ts'"
    with Cons.IH [OF rest] have "t \<in> set ts1 \<or>
       (\<exists>fn \<in> set fns. is_convertible fn \<and> t = (path_join r fn, xisf_dst d fn) \<and>
              \<not> os_exists w1 (snd t))" by blast
    then show "t \<in> set ts \<or>
           (\<exists>fn \<in> set (fn # fns). is_convertible fn \<and> t = (path_join r fn, xisf_dst d fn) \<and>
              \<not> os_exists w (snd t))"
    proof
      assume "t \<in> set ts1"
      with one show ?thesis by auto
    next
      assume "\<exists>fn \<in> set fns. is_convertible fn \<and> t = (path_join r fn, xisf_dst d fn) \<and>
              \<not> os_exists w1 (snd t)"
      then obtain f where f: "f \<in> set fns" "is_convertible f" "t = (path_join r f, xisf_dst d f)"
        "\<not> os_exists w1 (snd t)" by blast
      from f(4) enum_frame_exists [OF f1] have "\<not> os_exists w (snd t)" by blast
      with f show ?thesis by auto
    qed
  qed
qed

lemma walk_step_unfold:
  assumes "walk_step cfg ev (r, ds, fns) ts w = (Inr ts1, w1)"
  shows "\<exists>wm. os_makedirs (dest_root_of cfg ev r) w = (Inr (), wm) \<and>
     process_files cfg r (dest_root_of cfg ev r) fns ts wm = (Inr ts1, w1)"
  using assms by (auto simp: walk_step_def Let_def split: prod.splits sum.splits)

lemma walk_loop_covers:
  assumes "walk_loop cfg ev entries ts w = (Inr ts', w')"
  shows "set ts \<subseteq> set ts' \<and>
     (\<forall>entry \<in> set entries. \<forall>fn \<in> set (snd (snd entry)). is_convertible fn \<longrightarrow>
        os_exists w' (xisf_dst (dest_root_of cfg ev (fst entry)) fn) \<or>
        (path_join (fst entry) fn, xisf_dst (dest_root_of cfg ev (fst entry)) fn) \<in> set ts')"
  using assms
proof (induction entries arbitrary: ts w)
  case Nil
  then show ?case by simp
next
  case (Cons entry entries)
  obtain r ds fns where e: "entry = (r, ds, fns)" by (cases entry)
  obtain x w1 where s: "walk_step cfg ev entry ts w = (x, w1)"
    by (cases "walk_step cfg ev entry ts w")
  from Cons.prems s obtain ts1 where x: "x = Inr ts1" by (cases x) auto
  with Cons.prems s have rest: "walk_loop cfg ev entries ts1 w1 = (Inr ts', w')" by simp
  have f2: "enum_frame w1 w'" using walk_loop_frame [of w1 cfg ev entries ts1] rest by simp
  from walk_step_unfold [of cfg ev r ds fns ts w ts1 w1] s x e
  obtain wm where pf: "process_files cfg r (dest_root_of cfg ev r) fns ts wm = (Inr ts1, w1)"
    by auto
  note c1 = process_files_covers [OF pf]
  note ih = Cons.IH [OF rest]
  have sub: "set ts \<subseteq> set ts'" using c1 ih by blast
  have here: "\<forall>fn \<in> set fns. is_convertible fn \<longrightarrow>
        os_exists w' (xisf_dst (dest_root_of cfg ev r) fn) \<or>
        (path_join r fn, xisf_dst (dest_root_of cfg ev r) fn) \<in> set ts'"
  proof (intro ballI impI)
    fix fn assume "fn \<in> set fns" "is_convertible fn"
    with c1 have "os_exists w1 (xisf_dst (dest_root_of cfg ev r) fn) \<or>
        (path_join r fn, xisf_dst (dest_root_of cfg ev r) fn) \<in> set ts1" by blast
    then show "os_exists w' (xisf_dst (dest_root_of cfg ev r) fn) \<or>
        (path_join r fn, xisf_dst (dest_root_of cfg ev r) fn) \<in> set ts'"
      using enum_frame_exists [OF f2] ih by blast
  qed
  show ?case using sub here ih e by simp
qed

lemma walk_loop_missing:
  assumes "skip_existing cfg" and "walk_loop cfg ev entries ts w = (Inr ts', w')"
  shows "\<forall>t \<in> set ts'. t \<in> set ts \<or>
           (\<exists>entry \<in> set entries. \<exists>fn \<in> set (snd (snd entry)). is_convertible fn \<and>
              t = (path_join (fst entry) fn, xisf_dst (dest_root_of cfg ev (fst entry)) fn) \<and>
              \<not> os_exists w (snd t))"
  using assms(2)
proof (induction entries arbitrary: ts w)
  case Nil
  then show ?case by simp
next
  case (Cons entry entries)
  obtain r ds fns where e: "entry = (r, ds, fns)" by (cases entry)
  obtain x w1 where s: "walk_step cfg ev entry ts w = (x, w1)"
    by (cases "walk_step cfg ev entry ts w")
  from Cons.prems s obtain ts1 where x: "x = Inr ts1" by (cases x) auto
  with Cons.prems s have rest: "walk_loop cfg ev entries ts1 w1 = (Inr ts', w')" by simp
  have f1: "enum_frame w w1" using walk_step_frame [of w cfg ev entry ts] s by simp
  from walk_step_unfold [of cfg ev r ds fns ts w ts1 w1] s x e
  obtain wm where mk: "os_makedirs (dest_root_of cfg ev r) w = (Inr (), wm)"
    and pf: "process_files cfg r (dest_root_of cfg ev r) fns ts wm = (Inr ts1, w1)"
    by auto
  have fm: "enum_frame w wm" using os_makedirs_frame [of w "dest_root_of cfg ev r"] mk by simp
  note m1 = process_files_missing [OF assms(1) pf]
  show ?case
  proof
    fix t assume "t \<in> set ts'"
    with Cons.IH [OF rest] have "t \<in> set ts1 \<or>
       (\<exists>entry \<in> set entries. \<exists>fn \<in> set (snd (snd entry)). is_convertible fn \<and>
          t = (path_join (fst entry) fn, xisf_dst (dest_root_of cfg ev (fst entry)) fn) \<and>
          \<not> os_exists w1 (snd t))" by blast
    then show "t \<in> set ts \<or>
       (\<exists>entry \<in> set (entry # entries). \<exists>fn \<in> set (snd (snd entry)). is_convertible fn \<and>
          t = (path_join (fst entry) fn, xisf_dst (dest_root_of cfg ev (fst entry)) fn) \<and>
          \<not> os_exists w (snd t))"
    proof
      assume "t \<in> set ts1"
      with m1 have "t \<in> set ts \<or>
           (\<exists>fn \<in> set fns. is_convertible fn \<and>
              t = (path_join r fn, xisf_dst (dest_root_of cfg ev r) fn) \<and>
              \<not> os_exists wm (snd t))" by blast
      then show ?thesis
      proof
        assume "t \<in> set ts"
        then show ?thesis by simp
      next
        assume "\<exists>fn \<in> set fns. is_convertible fn \<and>
              t = (path_join r fn, xisf_dst (dest_root_of cfg ev r) fn) \<and>
              \<not> os_exists wm (snd t)"
        then obtain f where f: "f \<in> set fns" "is_convertible f"
          "t = (path_join r f, xisf_dst (dest_root_of cfg ev r) f)" "\<not> os_exists wm (snd t)"
          by blast
        from f(4) enum_frame_exists [OF fm] have "\<not> os_exists w (snd t)" by blast
        with f e show ?thesis by auto
      qed
    next
      assume "\<exists>entry \<in> set entries. \<exists>fn \<in> set (snd (snd entry)). is_convertible fn \<and>
          t = (path_join (fst entry) fn, xisf_dst (dest_root_of cfg ev (fst entry)) fn) \<and>
          \<not> os_exists w1 (snd t)"
      then obtain en f where f: "en \<in> set entries" "f \<in> set (snd (snd en))" "is_convertible f"
        "t = (path_join (fst en) f, xisf_dst (dest_root_of cfg ev (fst en)) f)"
        "\<not> os_exists w1 (snd t)" by blast
      from f(5) enum_frame_exists [OF f1] have "\<not> os_exists w (snd t)" by blast
      with f show ?thesis by auto
    qed
  qed
qed

lemma main_returns_unfold:
  assumes "fst (main cfg ev w) = Inr ()"
  shows "\<exists>w1 tasks w2. os_makedirs (output_dir cfg) w = (Inr (), w1) \<and>
     enumerate_tree cfg ev w1 = (Inr tasks, w2) \<and>
     snd (main cfg ev w) =
       snd (collect cfg ev (as_completed ev tasks)
              (submit_all tasks (emit (ConvertingNotice (length tasks) (workers cfg)) w2))) \<and>
     run_futures cfg ev w = as_completed ev tasks"
  using assms
  by (auto simp: main_def run_futures_def Let_def split: if_splits prod.splits sum.splits)

lemma run_futures_cases:
  "run_futures cfg ev w = [] \<or>
   (\<exists>w1 tasks w2. os_makedirs (output_dir cfg) w = (Inr (), w1) \<and>
      enumerate_tree cfg ev w1 = (Inr tasks, w2) \<and> run_futures cfg ev w = as_completed ev tasks)"
  by (auto simp: run_futures_def split: if_splits prod.splits sum.splits)

lemma later_run_futures:
  assumes sk: "skip_existing cfg"
    and m: "fst (main cfg ev w) = Inr ()"
    and perm: "\<forall>ts. set (as_completed ev ts) = set ts"
    and sub: "\<forall>e2 \<in> set (walk2 (input_dir cfg)). \<forall>fn \<in> set (snd (snd e2)). is_convertible fn \<longrightarrow>
               (\<exists>e1 \<in> set (os_walk ev (input_dir cfg)). fst e1 = fst e2 \<and> fn \<in> set (snd (snd e1)))"
    and t: "t \<in> set (run_futures cfg (ev\<lparr>os_walk := walk2\<rparr>) (snd (main cfg ev w)))"
  shows "t \<in> set (run_futures cfg ev w) \<and> (\<exists>e. future_result cfg ev t = Inl e)"
proof -
  let ?w4 = "snd (main cfg ev w)"
  let ?ev2 = "ev\<lparr>os_walk := walk2\<rparr>"
  from main_returns_unfold [OF m] obtain w1 tasks1 w2 where
    e1: "enumerate_tree cfg ev w1 = (Inr tasks1, w2)"
    and w4: "?w4 = snd (collect cfg ev (as_completed ev tasks1)
              (submit_all tasks1 (emit (ConvertingNotice (length tasks1) (workers cfg)) w2)))"
    and rf: "run_futures cfg ev w = as_completed ev tasks1" by blast
  let ?w3 = "submit_all tasks1 (emit (ConvertingNotice (length tasks1) (workers cfg)) w2)"
  from run_futures_cases [of cfg ?ev2 ?w4] t obtain w5 tasks2 w6 where
    mk: "os_makedirs (output_dir cfg) ?w4 = (Inr (), w5)"
    and e2: "enumerate_tree cfg ?ev2 w5 = (Inr tasks2, w6)"
    and rf2: "run_futures cfg ?ev2 ?w4 = as_completed ?ev2 tasks2" by auto
  have t2: "t \<in> set tasks2" using t rf2 perm by simp
  have f45: "enum_frame ?w4 w5" using os_makedirs_frame [of ?w4 "output_dir cfg"] mk by simp
  have dr: "\<And>r. dest_root_of cfg ?ev2 r = dest_root_of cfg ev r" by (simp add: dest_root_of_def)
  from walk_loop_missing [OF sk, of ?ev2 "walk2 (input_dir cfg)" "[]" w5 tasks2 w6] e2 t2
  obtain en fn where en: "en \<in> set (walk2 (input_dir cfg))" "fn \<in> set (snd (snd en))"
    "is_convertible fn"
    "t = (path_join (fst en) fn, xisf_dst (dest_root_of cfg ev (fst en)) fn)"
    "\<not> os_exists w5 (snd t)"
    by (auto simp: enumerate_tree_def dr)
  from sub en(1,2,3) obtain en1 where en1: "en1 \<in> set (os_walk ev (input_dir cfg))"
    "fst en1 = fst en" "fn \<in> set (snd (snd en1))" by blast
  have n4: "\<not> os_exists ?w4 (snd t)" using en(5) enum_frame_exists [OF f45] by blast
  have src: "\<forall>t' \<in> set (as_completed ev tasks1). fst t' \<noteq> snd t"
  proof
    fix t' assume "t' \<in> set (as_completed ev tasks1)"
    then have "t' \<in> set tasks1" using perm by simp
    with walk_loop_origin [of cfg ev "os_walk ev (input_dir cfg)" "[]" w1 tasks1 w2] e1
    obtain en' fn' where "is_convertible fn'" "fst t' = path_join (fst en') fn'"
      by (auto simp: enumerate_tree_def)
    with convertible_src_not_xisf [of fn' "fst en'"
        "fst (splitext (path_join (dest_root_of cfg ev (fst en)) fn))"] en(4)
    show "fst t' \<noteq> snd t" by (simp add: xisf_dst_def)
  qed
  from walk_loop_covers [of cfg ev "os_walk ev (input_dir cfg)" "[]" w1 tasks1 w2] e1
  have "os_exists w2 (xisf_dst (dest_root_of cfg ev (fst en1)) fn) \<or>
        (path_join (fst en1) fn, xisf_dst (dest_root_of cfg ev (fst en1)) fn) \<in> set tasks1"
    using en1(1,3) en(3) by (auto simp: enumerate_tree_def)
  then have cov: "os_exists w2 (snd t) \<or> t \<in> set tasks1" using en(4) en1(2) by simp
  have n2: "\<not> os_exists w2 (snd t)"
  proof
    assume "os_exists w2 (snd t)"
    then have "os_exists ?w3 (snd t)" by (simp add: os_exists_def submit_all_def emit_def)
    from collect_exists_kept [OF src this, where cfg = cfg and ev = ev] w4 n4 show False by simp
  qed
  with cov have t1: "t \<in> set tasks1" by simp
  then have tc: "t \<in> set (as_completed ev tasks1)" using perm by simp
  have "\<exists>e. future_result cfg ev t = Inl e"
  proof (cases "future_result cfg ev t")
    case (Inl e)
    then show ?thesis by simp
  next
    case (Inr r)
    from collect_writes [OF tc Inr src, of ?w3] w4 n4 show ?thesis by simp
  qed
  with tc rf show ?thesis by simp
qed

text \<open>
  C5. With \<open>skip_existing\<close> enabled, a convertible file whose destination exists when the
  file is examined leaves the task list as it was and prints the skip notice, and an
  enumeration that starts where the destination of every convertible file of the walk
  exists enqueues no task. Consequently, take a run that returned, with a pool that
  completes exactly the tasks submitted, and a second run started in the world that the
  first run left, with the same services and a walk \<open>walk2\<close> that lists no convertible
  file that the first walk did not list in the same directory (the same tree, with or
  without the sources that the first run removed). Every future of the second run belongs
  to a task of the first run whose worker raised, and its worker raises again, so the
  second run converts no file; when every worker of the first run returned, the second run
  has no future at all.
\<close>

theorem skip_existing_enqueues_nothing:
  assumes "skip_existing cfg"
  shows "(is_convertible fn \<and> os_exists w (xisf_dst d fn) \<longrightarrow>
            process_file cfg r d fn ts w = (Inr ts, emit (SkipNotice (path_join r fn)) w)) \<and>
         ((\<forall>entry \<in> set (os_walk ev (input_dir cfg)). \<forall>f \<in> set (snd (snd entry)).
              is_convertible f \<longrightarrow> os_exists w (xisf_dst (dest_root_of cfg ev (fst entry)) f)) \<and>
          fst (enumerate_tree cfg ev w) = Inr tasks \<longrightarrow> tasks = []) \<and>
         (fst (main cfg ev w0) = Inr () \<and> (\<forall>ts. set (as_completed ev ts) = set ts) \<and>
          (\<forall>e2 \<in> set (walk2 (input_dir cfg)). \<forall>f \<in> set (snd (snd e2)). is_convertible f \<longrightarrow>
              (\<exists>e1 \<in> set (os_walk ev (input_dir cfg)). fst e1 = fst e2 \<and> f \<in> set (snd (snd e1)))) \<longrightarrow>
            (\<forall>t \<in> set (run_futures cfg (ev\<lparr>os_walk := walk2\<rparr>) (snd (main cfg ev w0))).
                t \<in> set (run_futures cfg ev w0) \<and>
                (\<exists>e. future_result cfg ev t = Inl e \<and>
                     future_result cfg (ev\<lparr>os_walk := walk2\<rparr>) t = Inl e)) \<and>
            ((\<forall>t \<in> set (run_futures cfg ev w0). \<exists>res. future_result cfg ev t = Inr res) \<longrightarrow>
               run_futures cfg (ev\<lparr>os_walk := walk2\<rparr>) (snd (main cfg ev w0)) = []))"
proof -
  let ?ev2 = "ev\<lparr>os_walk := walk2\<rparr>"
  have a: "is_convertible fn \<and> os_exists w (xisf_dst d fn) \<longrightarrow>
            process_file cfg r d fn ts w = (Inr ts, emit (SkipNotice (path_join r fn)) w)"
    using assms by (simp add: process_file_def Let_def)
  have b: "(\<forall>entry \<in> set (os_walk ev (input_dir cfg)). \<forall>f \<in> set (snd (snd entry)).
              is_convertible f \<longrightarrow> os_exists w (xisf_dst (dest_root_of cfg ev (fst entry)) f)) \<and>
          fst (enumerate_tree cfg ev w) = Inr tasks \<longrightarrow> tasks = []"
    using walk_loop_skip_all [OF assms, of "os_walk ev (input_dir cfg)" w ev "[]" tasks]
    by (simp add: enumerate_tree_def)
  have c: "fst (main cfg ev w0) = Inr () \<and> (\<forall>ts. set (as_completed ev ts) = set ts) \<and>
          (\<forall>e2 \<in> set (walk2 (input_dir cfg)). \<forall>f \<in> set (snd (snd e2)). is_convertible f \<longrightarrow>
              (\<exists>e1 \<in> set (os_walk ev (input_dir cfg)). fst e1 = fst e2 \<and> f \<in> set (snd (snd e1)))) \<longrightarrow>
            (\<forall>t \<in> set (run_futures cfg ?ev2 (snd (main cfg ev w0))).
                t \<in> set (run_futures cfg ev w0) \<and>
                (\<exists>e. future_result cfg ev t = Inl e \<and> future_result cfg ?ev2 t = Inl e)) \<and>
            ((\<forall>t \<in> set (run_futures cfg ev w0). \<exists>res. future_result cfg ev t = Inr res) \<longrightarrow>
               run_futures cfg ?ev2 (snd (main cfg ev w0)) = [])"
  proof
    assume h: "fst (main cfg ev w0) = Inr () \<and> (\<forall>ts. set (as_completed ev ts) = set ts) \<and>
          (\<forall>e2 \<in> set (walk2 (input_dir cfg)). \<forall>f \<in> set (snd (snd e2)). is_convertible f \<longrightarrow>
              (\<exists>e1 \<in> set (os_walk ev (input_dir cfg)). fst e1 = fst e2 \<and> f \<in> set (snd (snd e1))))"
    then have h1: "fst (main cfg ev w0) = Inr ()"
      and h2: "\<forall>ts. set (as_completed ev ts) = set ts"
      and h3: "\<forall>e2 \<in> set (walk2 (input_dir cfg)). \<forall>f \<in> set (snd (snd e2)). is_convertible f \<longrightarrow>
              (\<exists>e1 \<in> set (os_walk ev (input_dir cfg)). fst e1 = fst e2 \<and> f \<in> set (snd (snd e1)))"
      by blast+
    have same: "\<And>t. future_result cfg ?ev2 t = future_result cfg ev t"
      by (simp add: future_result_def)
    have one: "\<forall>t \<in> set (run_futures cfg ?ev2 (snd (main cfg ev w0))).
                t \<in> set (run_futures cfg ev w0) \<and>
                (\<exists>e. future_result cfg ev t = Inl e \<and> future_result cfg ?ev2 t = Inl e)"
    proof
      fix t assume "t \<in> set (run_futures cfg ?ev2 (snd (main cfg ev w0)))"
      from later_run_futures [OF assms h1 h2 h3 this]
      show "t \<in> set (run_futures cfg ev w0) \<and>
                (\<exists>e. future_result cfg ev t = Inl e \<and> future_result cfg ?ev2 t = Inl e)"
        by (simp add: same)
    qed
    have two: "(\<forall>t \<in> set (run_futures cfg ev w0). \<exists>res. future_result cfg ev t = Inr res) \<longrightarrow>
               run_futures cfg ?ev2 (snd (main cfg ev w0)) = []"
    proof
      assume all: "\<forall>t \<in> set (run_futures cfg ev w0). \<exists>res. future_result cfg ev t = Inr res"
      show "run_futures cfg ?ev2 (snd (main cfg ev w0)) = []"
      proof (cases "run_futures cfg ?ev2 (snd (main cfg ev w0))")
        case Nil
        then show ?thesis .
      next
        case (Cons t rest)
        then have "t \<in> set (run_futures cfg ?ev2 (snd (main cfg ev w0)))" by simp
        with one have "t \<in> set (run_futures cfg ev w0)" "\<exists>e. future_result cfg ev t = Inl e"
          by blast+
        with all show ?thesis by auto
      qed
    qed
    from one two show "(\<forall>t \<in> set (run_futures cfg ?ev2 (snd (main cfg ev w0))).
                t \<in> set (run_futures cfg ev w0) \<and>
                (\<exists>e. future_result cfg ev t = Inl e \<and> future_result cfg ?ev2 t = Inl e)) \<and>
            ((\<forall>t \<in> set (run_futures cfg ev w0). \<exists>res. future_result cfg ev t = Inr res) \<longrightarrow>
               run_futures cfg ?ev2 (snd (main cfg ev w0)) = [])" by (rule conjI)
  qed
  from a b c show ?thesis by (intro conjI)
qed

theorem skip_existing_enqueues_nothing_witness:
  "skip_existing (ex_config True 5) \<and> skip_existing (ex_config True 0) \<and>
   is_convertible ''a.fits'' \<and>
   os_exists (ex_world_converted 60) (xisf_dst ''out/.'' ''a.fits'') \<and>
   process_file (ex_config True 5) ''in'' ''out/.'' ''a.fits'' [] (ex_world_converted 60) =
     (Inr [], emit (SkipNotice ''in/a.fits'') (ex_world_converted 60)) \<and>
   fst (enumerate_tree (ex_config True 5) (ex_env write_ok ex_walk) (ex_world_converted 60)) = Inr [] \<and>
   fst (main (ex_config True 5) (ex_env write_ok ex_walk) (ex_world 60)) = Inr () \<and>
   run_futures (ex_config True 5) (ex_env write_ok ex_walk) (ex_world 60) =
     [(''in/sub/b.fits'', ''out/sub/b.xisf''), (''in/a.fits'', ''out/./a.xisf'')] \<and>
   run_futures (ex_config True 5) ((ex_env write_ok ex_walk)\<lparr>os_walk := \<lambda>p. ex_walk\<rparr>)
     (snd (main (ex_config True 5) (ex_env write_ok ex_walk) (ex_world 60))) = [] \<and>
   events (snd (main (ex_config True 5) ((ex_env write_ok ex_walk)\<lparr>os_walk := \<lambda>p. ex_walk\<rparr>)
     (snd (main (ex_config True 5) (ex_env write_ok ex_walk) (ex_world 60))))) =
     events (snd (main (ex_config True 5) (ex_env write_ok ex_walk) (ex_world 60))) @
     [MakeDirs ''out'', MakeDirs ''out/.'', SkipNotice ''in/a.fits'',
      Copy2 ''in/notes.txt'' ''out/./notes.txt'', MakeDirs ''out/sub'',
      SkipNotice ''in/sub/b.fits'', ConvertingNotice 0 4] \<and>
   fst (main (ex_config True 0) (ex_env (write_full_for ''out/sub/b.xisf'') ex_walk) (ex_world 60)) =
     Inr () \<and>
   files (snd (main (ex_config True 0) (ex_env (write_full_for ''out/sub/b.xisf'') ex_walk)
                 (ex_world 60))) ''in/a.fits'' = None \<and>
   run_futures (ex_config True 0)
     ((ex_env (write_full_for ''out/sub/b.xisf'') ex_walk)\<lparr>os_walk := \<lambda>p. ex_walk_after\<rparr>)
     (snd (main (ex_config True 0) (ex_env (write_full_for ''out/sub/b.xisf'') ex_walk)
        (ex_world 60))) = [(''in/sub/b.fits'', ''out/sub/b.xisf'')] \<and>
   (''in/sub/b.fits'', ''out/sub/b.xisf'') \<in>
     set (run_futures (ex_config True 0) (ex_env (write_full_for ''out/sub/b.xisf'') ex_walk)
            (ex_world 60)) \<and>
   (\<exists>e. future_result (ex_config True 0) (ex_env (write_full_for ''out/sub/b.xisf'') ex_walk)
          (''in/sub/b.fits'', ''out/sub/b.xisf'') = Inl e \<and>
        future_result (ex_config True 0)
          ((ex_env (write_full_for ''out/sub/b.xisf'') ex_walk)\<lparr>os_walk := \<lambda>p. ex_walk_after\<rparr>)
          (''in/sub/b.fits'', ''out/sub/b.xisf'') = Inl e)"
proof -
  let ?cfg = "ex_config True 5"
  let ?cfz = "ex_config True 0"
  let ?ev = "ex_env write_ok ex_walk"
  let ?ef = "ex_env (write_full_for ''out/sub/b.xisf'') ex_walk"
  let ?w = "ex_world_converted 60"
  let ?u = "ex_world 60"
  let ?b = "(''in/sub/b.fits'', ''out/sub/b.xisf'')"
  have sk: "skip_existing ?cfg" by (simp add: ex_config_def)
  have sz: "skip_existing ?cfz" by (simp add: ex_config_def)
  have c: "is_convertible ''a.fits''" by code_simp
  have x: "os_exists ?w (xisf_dst ''out/.'' ''a.fits'')" by code_simp
  have pj: "path_join ''in'' ''a.fits'' = ''in/a.fits''" by code_simp
  have h: "\<forall>entry \<in> set (os_walk ?ev (input_dir ?cfg)). \<forall>f \<in> set (snd (snd entry)).
      is_convertible f \<longrightarrow> os_exists ?w (xisf_dst (dest_root_of ?cfg ?ev (fst entry)) f)"
    by code_simp
  have r: "fst (enumerate_tree ?cfg ?ev ?w) = Inr (projr (fst (enumerate_tree ?cfg ?ev ?w)))"
    by code_simp
  have m1: "fst (main ?cfg ?ev ?u) = Inr ()" by code_simp
  have p1: "\<forall>ts. set (as_completed ?ev ts) = set ts" by (simp add: ex_env_def)
  have s1: "\<forall>e2 \<in> set ((\<lambda>p. ex_walk) (input_dir ?cfg)). \<forall>f \<in> set (snd (snd e2)). is_convertible f \<longrightarrow>
      (\<exists>e1 \<in> set (os_walk ?ev (input_dir ?cfg)). fst e1 = fst e2 \<and> f \<in> set (snd (snd e1)))"
    by code_simp
  have f1: "run_futures ?cfg ?ev ?u = [?b, (''in/a.fits'', ''out/./a.xisf'')]" by code_simp
  have r1: "future_result ?cfg ?ev ?b = Inr (48, ''zlib'')" by code_simp
  have r2: "future_result ?cfg ?ev (''in/a.fits'', ''out/./a.xisf'') = Inr (48, ''zlib'')"
    by code_simp
  have all: "\<forall>t \<in> set (run_futures ?cfg ?ev ?u). \<exists>res. future_result ?cfg ?ev t = Inr res"
    by (simp add: f1 r1 r2)
  have e2: "events (snd (main ?cfg (?ev\<lparr>os_walk := \<lambda>p. ex_walk\<rparr>) (snd (main ?cfg ?ev ?u)))) =
     events (snd (main ?cfg ?ev ?u)) @
     [MakeDirs ''out'', MakeDirs ''out/.'', SkipNotice ''in/a.fits'',
      Copy2 ''in/notes.txt'' ''out/./notes.txt'', MakeDirs ''out/sub'',
      SkipNotice ''in/sub/b.fits'', ConvertingNotice 0 4]" by code_simp
  have m2: "fst (main ?cfz ?ef ?u) = Inr ()" by code_simp
  have d2: "files (snd (main ?cfz ?ef ?u)) ''in/a.fits'' = None" by code_simp
  have p2: "\<forall>ts. set (as_completed ?ef ts) = set ts" by (simp add: ex_env_def)
  have s2: "\<forall>e2 \<in> set ((\<lambda>p. ex_walk_after) (input_dir ?cfz)). \<forall>f \<in> set (snd (snd e2)).
      is_convertible f \<longrightarrow>
      (\<exists>e1 \<in> set (os_walk ?ef (input_dir ?cfz)). fst e1 = fst e2 \<and> f \<in> set (snd (snd e1)))"
    by code_simp
  have f2: "run_futures ?cfz (?ef\<lparr>os_walk := \<lambda>p. ex_walk_after\<rparr>) (snd (main ?cfz ?ef ?u)) = [?b]"
    by code_simp
  have i2: "?b \<in> set (run_futures ?cfz (?ef\<lparr>os_walk := \<lambda>p. ex_walk_after\<rparr>)
                        (snd (main ?cfz ?ef ?u)))"
    by (simp add: f2)
  note ok = skip_existing_enqueues_nothing [OF sk, of "''a.fits''" ?w "''out/.''" "''in''" "[]" ?ev
        "projr (fst (enumerate_tree ?cfg ?ev ?w))" ?u "\<lambda>p. ex_walk"]
  note full = skip_existing_enqueues_nothing [OF sz, of "''a.fits''" ?w "''out/.''" "''in''" "[]" ?ef
        "projr (fst (enumerate_tree ?cfz ?ef ?w))" ?u "\<lambda>p. ex_walk_after"]
  have A: "process_file ?cfg ''in'' ''out/.'' ''a.fits'' [] ?w =
     (Inr [], emit (SkipNotice ''in/a.fits'') ?w)"
    using ok c x by (simp add: pj)
  have B: "fst (enumerate_tree ?cfg ?ev ?w) = Inr []" using ok h r by simp
  have C: "run_futures ?cfg (?ev\<lparr>os_walk := \<lambda>p. ex_walk\<rparr>) (snd (main ?cfg ?ev ?u)) = []"
    using ok m1 p1 s1 all by blast
  have D: "?b \<in> set (run_futures ?cfz ?ef ?u) \<and>
      (\<exists>e. future_result ?cfz ?ef ?b = Inl e \<and>
           future_result ?cfz (?ef\<lparr>os_walk := \<lambda>p. ex_walk_after\<rparr>) ?b = Inl e)"
    using full m2 p2 s2 i2 by blast
  show ?thesis using sk sz c x A B m1 f1 C e2 m2 d2 f2 D by simp
qed

section \<open>Mirrored directories\<close>



lemma enum_frame_events: "enum_frame w w' \<Longrightarrow> e \<in> set (events w) \<Longrightarrow> e \<in> set (events w')"
  by (auto simp: enum_frame_def)





section \<open>Copies come before the dispatch\<close>

lemma sched_frame_refl: "sched_frame w w"
  by (simp add: sched_frame_def)

lemma sched_frame_trans:
  assumes "sched_frame w w1" and "sched_frame w1 w2"
  shows "sched_frame w w2"
proof -
  from assms(1) obtain e1 where e1: "events w1 = events w @ e1"
      "list_all (\<lambda>e. \<not> is_enumeration_event e \<and> \<not> is_submit e) e1"
    unfolding sched_frame_def by blast
  from assms(2) obtain e2 where e2: "events w2 = events w1 @ e2"
      "list_all (\<lambda>e. \<not> is_enumeration_event e \<and> \<not> is_submit e) e2"
    unfolding sched_frame_def by blast
  have "events w2 = events w @ (e1 @ e2) \<and>
      list_all (\<lambda>e. \<not> is_enumeration_event e \<and> \<not> is_submit e) (e1 @ e2)"
    using e1 e2 by simp
  then show ?thesis unfolding sched_frame_def by blast
qed

lemma sched_frame_emit:
  "\<not> is_enumeration_event e \<Longrightarrow> \<not> is_submit e \<Longrightarrow> sched_frame w (emit e w)"
  by (simp add: sched_frame_def emit_def)

lemma retire_sched_frame: "sched_frame w (snd (retire cfg src w))"
  by (simp add: retire_def decide_delete_def delete_or_keep_def os_getmtime_def os_remove_cases
                emit_def Let_def sched_frame_def split: option.splits)

lemma handle_future_sched_frame: "sched_frame w (snd (handle_future cfg t res w))"
proof (cases res)
  case (Inl e)
  then show ?thesis by (simp add: handle_future_def try_block_def sched_frame_emit)
next
  case (Inr r)
  obtain n u where r: "r = (n, u)" by (cases r)
  let ?w0 = "emit (SuccessNotice (fst t) (snd t) n u) w"
  obtain x w1 where rt: "retire cfg (fst t) ?w0 = (x, w1)"
    by (cases "retire cfg (fst t) ?w0")
  have x: "x = Inr ()" using retire_returns [of cfg "fst t" ?w0] rt by simp
  have "sched_frame w ?w0" by (simp add: sched_frame_emit)
  moreover have "sched_frame ?w0 w1" using retire_sched_frame [of ?w0 cfg "fst t"] rt by simp
  ultimately have "sched_frame w w1" by (rule sched_frame_trans)
  with Inr r rt x show ?thesis by (simp add: handle_future_def try_block_def)
qed

lemma collect_sched_frame: "sched_frame w (snd (collect cfg ev ts w))"
proof (induction ts arbitrary: w)
  case Nil
  show ?case by (simp add: sched_frame_refl)
next
  case (Cons t ts)
  let ?we = "worker_effect cfg ev t w"
  obtain x w1 where h: "handle_future cfg t (future_result cfg ev t) ?we = (x, w1)"
    by (cases "handle_future cfg t (future_result cfg ev t) ?we")
  have x: "x = Inr ()" using handle_future_returns [of cfg t "future_result cfg ev t" ?we] h by simp
  have "sched_frame ?we w1"
    using handle_future_sched_frame [of ?we cfg t "future_result cfg ev t"] h by simp
  then have "sched_frame w w1"
    using worker_effect_frame [of cfg ev t w] by (simp add: sched_frame_def)
  moreover have "sched_frame w1 (snd (collect cfg ev ts w1))" by (rule Cons.IH)
  ultimately have "sched_frame w (snd (collect cfg ev ts w1))" by (rule sched_frame_trans)
  with h x show ?case by simp
qed

lemma shutil_copy2_logged: "Copy2 src dst \<in> set (events (snd (shutil_copy2 src dst w)))"
  by (simp add: shutil_copy2_def emit_def Let_def split: option.splits)

lemma process_file_copies:
  "\<not> is_convertible fn \<Longrightarrow>
     Copy2 (path_join r fn) (path_join d fn) \<in> set (events (snd (process_file cfg r d fn ts w)))"
  using shutil_copy2_logged [of "path_join r fn" "path_join d fn" w]
  by (auto simp: process_file_def Let_def split: prod.splits sum.splits)

lemma process_files_copies:
  assumes "process_files cfg r d fns ts w = (Inr ts', w')"
  shows "\<forall>fn \<in> set fns. \<not> is_convertible fn \<longrightarrow>
           Copy2 (path_join r fn) (path_join d fn) \<in> set (events w')"
  using assms
proof (induction fns arbitrary: ts w)
  case Nil
  show ?case by simp
next
  case (Cons fn fns)
  obtain x w1 where s: "process_file cfg r d fn ts w = (x, w1)"
    by (cases "process_file cfg r d fn ts w")
  from Cons.prems s obtain ts1 where x: "x = Inr ts1" by (cases x) auto
  with Cons.prems s have rest: "process_files cfg r d fns ts1 w1 = (Inr ts', w')" by simp
  have fr: "enum_frame w1 w'" using process_files_frame [of w1 cfg r d fns ts1] rest by simp
  have here: "\<not> is_convertible fn \<longrightarrow> Copy2 (path_join r fn) (path_join d fn) \<in> set (events w1)"
    using process_file_copies [of fn r d cfg ts w] s by simp
  with enum_frame_events [OF fr] Cons.IH [OF rest] show ?case by auto
qed

lemma walk_step_copies:
  assumes "walk_step cfg ev entry ts w = (Inr ts', w')"
  shows "\<forall>fn \<in> set (snd (snd entry)). \<not> is_convertible fn \<longrightarrow>
           Copy2 (path_join (fst entry) fn) (path_join (dest_root_of cfg ev (fst entry)) fn)
             \<in> set (events w')"
proof -
  obtain r ds fns where e: "entry = (r, ds, fns)" by (cases entry)
  obtain y wm where m: "os_makedirs (dest_root_of cfg ev r) w = (y, wm)"
    by (cases "os_makedirs (dest_root_of cfg ev r) w")
  have y: "y = Inr ()" using assms e m by (cases y) (auto simp: walk_step_def)
  have "process_files cfg r (dest_root_of cfg ev r) fns ts wm = (Inr ts', w')"
    using assms e m y by (simp add: walk_step_def)
  from process_files_copies [OF this] e show ?thesis by simp
qed

lemma walk_loop_copies:
  assumes "walk_loop cfg ev entries ts w = (Inr ts', w')"
  shows "\<forall>entry \<in> set entries. \<forall>fn \<in> set (snd (snd entry)). \<not> is_convertible fn \<longrightarrow>
           Copy2 (path_join (fst entry) fn) (path_join (dest_root_of cfg ev (fst entry)) fn)
             \<in> set (events w')"
  using assms
proof (induction entries arbitrary: ts w)
  case Nil
  show ?case by simp
next
  case (Cons entry entries)
  obtain x w1 where s: "walk_step cfg ev entry ts w = (x, w1)"
    by (cases "walk_step cfg ev entry ts w")
  from Cons.prems s obtain ts1 where x: "x = Inr ts1" by (cases x) auto
  with Cons.prems s have rest: "walk_loop cfg ev entries ts1 w1 = (Inr ts', w')" by simp
  have fr: "enum_frame w1 w'" using walk_loop_frame [of w1 cfg ev entries ts1] rest by simp
  have here: "\<forall>fn \<in> set (snd (snd entry)). \<not> is_convertible fn \<longrightarrow>
           Copy2 (path_join (fst entry) fn) (path_join (dest_root_of cfg ev (fst entry)) fn)
             \<in> set (events w1)"
    using walk_step_copies s x by simp
  with enum_frame_events [OF fr] Cons.IH [OF rest] show ?case by auto
qed

lemma enum_frame_no_submit:
  assumes "enum_frame w w'" and "e \<in> set (events w')" and "is_submit e"
  shows "e \<in> set (events w)"
proof -
  from assms(1) obtain evs where ev: "events w' = events w @ evs" "list_all is_enumeration_event evs"
    unfolding enum_frame_def by blast
  have "e \<notin> set evs"
  proof
    assume "e \<in> set evs"
    with ev(2) have "is_enumeration_event e" by (auto simp: list_all_iff)
    with assms(3) show False by (cases e) auto
  qed
  with ev(1) assms(2) show ?thesis by auto
qed

text \<open>
  C9. A file whose name is not convertible is handed to \<open>shutil.copy2\<close> at once, inside
  the loop over the files; when the copy returns and the mirrored path is not a
  directory, the mirrored path holds what the source holds (content and modification
  time). In a run that reaches the pool, the events are those of the enumeration, then
  the line announcing the conversion, then the submission of every task, then what the
  loop over the futures adds: the copy of every file that is not convertible is among the
  events of the enumeration, and no submission is.
\<close>

theorem pass_through_copied_before_dispatch:
  "(\<not> is_convertible fn \<longrightarrow>
      process_file cfg r d fn ts w =
        (case shutil_copy2 (path_join r fn) (path_join d fn) w of
           (Inl e, wc) \<Rightarrow> (Inl e, wc)
         | (Inr u, wc) \<Rightarrow> (Inr ts, wc)) \<and>
      (\<forall>wc. shutil_copy2 (path_join r fn) (path_join d fn) w = (Inr (), wc) \<and>
            path_join d fn \<notin> dirs w \<longrightarrow>
              files wc (path_join d fn) = files w (path_join r fn) \<and>
              files w (path_join r fn) \<noteq> None)) \<and>
   (os_isdir w (input_dir cfg) \<and> os_makedirs (output_dir cfg) w = (Inr (), w1) \<and>
    enumerate_tree cfg ev w1 = (Inr tasks, w2) \<and> 0 < workers cfg \<longrightarrow>
      (\<exists>rest. events (snd (main cfg ev w)) =
                events w2 @ ConvertingNotice (length tasks) (workers cfg) #
                  map (\<lambda>t. Submit (fst t) (snd t)) tasks @ rest \<and>
              list_all (\<lambda>e. \<not> is_enumeration_event e \<and> \<not> is_submit e) rest) \<and>
      (\<forall>entry \<in> set (os_walk ev (input_dir cfg)). \<forall>f \<in> set (snd (snd entry)).
          \<not> is_convertible f \<longrightarrow>
            Copy2 (path_join (fst entry) f) (path_join (dest_root_of cfg ev (fst entry)) f)
              \<in> set (events w2)) \<and>
      (\<forall>e \<in> set (events w2). is_submit e \<longrightarrow> e \<in> set (events w)))"
proof -
  have a: "\<not> is_convertible fn \<Longrightarrow>
      process_file cfg r d fn ts w =
        (case shutil_copy2 (path_join r fn) (path_join d fn) w of
           (Inl e, wc) \<Rightarrow> (Inl e, wc)
         | (Inr u, wc) \<Rightarrow> (Inr ts, wc))"
    by (simp add: process_file_def Let_def)
  have b: "shutil_copy2 (path_join r fn) (path_join d fn) w = (Inr (), wc) \<Longrightarrow>
      path_join d fn \<notin> dirs w \<Longrightarrow>
        files wc (path_join d fn) = files w (path_join r fn) \<and> files w (path_join r fn) \<noteq> None" for wc
    by (auto simp: shutil_copy2_def emit_def Let_def split: option.splits if_splits)
  have c: "\<exists>rest. events (snd (main cfg ev w)) =
                events w2 @ ConvertingNotice (length tasks) (workers cfg) #
                  map (\<lambda>t. Submit (fst t) (snd t)) tasks @ rest \<and>
              list_all (\<lambda>e. \<not> is_enumeration_event e \<and> \<not> is_submit e) rest"
    if h: "os_isdir w (input_dir cfg)" "os_makedirs (output_dir cfg) w = (Inr (), w1)"
      "enumerate_tree cfg ev w1 = (Inr tasks, w2)" "0 < workers cfg"
  proof -
    let ?w4 = "submit_all tasks (emit (ConvertingNotice (length tasks) (workers cfg)) w2)"
    have mw: "snd (main cfg ev w) = snd (collect cfg ev (as_completed ev tasks) ?w4)"
      using h by (simp add: main_def Let_def split: prod.splits sum.splits)
    from collect_sched_frame [of ?w4 cfg ev "as_completed ev tasks"]
    obtain rest where r: "events (snd (collect cfg ev (as_completed ev tasks) ?w4)) = events ?w4 @ rest"
        "list_all (\<lambda>e. \<not> is_enumeration_event e \<and> \<not> is_submit e) rest"
      unfolding sched_frame_def by blast
    have "events ?w4 = events w2 @ ConvertingNotice (length tasks) (workers cfg) #
                  map (\<lambda>t. Submit (fst t) (snd t)) tasks"
      by (simp add: submit_all_def emit_def)
    with mw r show ?thesis by simp
  qed
  have d: "\<forall>entry \<in> set (os_walk ev (input_dir cfg)). \<forall>f \<in> set (snd (snd entry)).
          \<not> is_convertible f \<longrightarrow>
            Copy2 (path_join (fst entry) f) (path_join (dest_root_of cfg ev (fst entry)) f)
              \<in> set (events w2)"
    if h: "enumerate_tree cfg ev w1 = (Inr tasks, w2)"
    using walk_loop_copies [of cfg ev "os_walk ev (input_dir cfg)" "[]" w1 tasks w2] h
    by (simp add: enumerate_tree_def)
  have e: "\<forall>e \<in> set (events w2). is_submit e \<longrightarrow> e \<in> set (events w)"
    if h: "os_makedirs (output_dir cfg) w = (Inr (), w1)" "enumerate_tree cfg ev w1 = (Inr tasks, w2)"
  proof -
    have f1: "enum_frame w w1" using os_makedirs_frame [of w "output_dir cfg"] h(1) by simp
    have "enum_frame w1 w2"
      using walk_loop_frame [of w1 cfg ev "os_walk ev (input_dir cfg)" "[]"] h(2)
      by (simp add: enumerate_tree_def)
    with f1 have "enum_frame w w2" by (rule enum_frame_trans)
    then show ?thesis using enum_frame_no_submit by blast
  qed
  show ?thesis using a b c d e by blast
qed

theorem pass_through_copied_before_dispatch_witness:
  "\<not> is_convertible ''notes.txt'' \<and>
   events (snd (main (ex_config True 5) (ex_env (write_full_for ''out/sub/b.xisf'') ex_walk)
                  (ex_world 518400))) =
     [MakeDirs ''out'', MakeDirs ''out/.'', Copy2 ''in/notes.txt'' ''out/./notes.txt'',
      MakeDirs ''out/sub'', ConvertingNotice 2 4, Submit ''in/a.fits'' ''out/./a.xisf'',
      Submit ''in/sub/b.fits'' ''out/sub/b.xisf'',
      FailedNotice ''in/sub/b.fits'' (Exn OSError ''[Errno 28] No space left on device''),
      SuccessNotice ''in/a.fits'' ''out/./a.xisf'' 48 ''zlib'',
      Remove ''in/a.fits'', DeletedNotice ''in/a.fits''] \<and>
   Copy2 ''in/notes.txt'' ''out/./notes.txt'' \<in> set (events (snd (enumerate_tree (ex_config True 5)
       (ex_env (write_full_for ''out/sub/b.xisf'') ex_walk) (snd (os_makedirs ''out'' (ex_world 518400)))))) \<and>
   files (snd (shutil_copy2 ''in/notes.txt'' ''out/./notes.txt'' (ex_world 518400))) ''out/./notes.txt'' =
     Some \<lparr>mtime = 0, content = ''dark frames''\<rparr>"
proof -
  let ?cfg = "ex_config True 5"
  let ?ev = "ex_env (write_full_for ''out/sub/b.xisf'') ex_walk"
  let ?w = "ex_world 518400"
  let ?w1 = "snd (os_makedirs ''out'' ?w)"
  let ?w2 = "snd (enumerate_tree ?cfg ?ev ?w1)"
  let ?tasks = "[(''in/a.fits'', ''out/./a.xisf''), (''in/sub/b.fits'', ''out/sub/b.xisf'')]"
  have nc: "\<not> is_convertible ''notes.txt''" by code_simp
  have od: "output_dir ?cfg = ''out''" by (simp add: ex_config_def)
  have h1: "os_isdir ?w (input_dir ?cfg)" by code_simp
  have "fst (os_makedirs ''out'' ?w) = Inr ()" by code_simp
  then have h2: "os_makedirs (output_dir ?cfg) ?w = (Inr (), ?w1)"
    by (simp add: od prod_eq_iff)
  have "fst (enumerate_tree ?cfg ?ev ?w1) = Inr ?tasks" by code_simp
  then have h3: "enumerate_tree ?cfg ?ev ?w1 = (Inr ?tasks, ?w2)"
    by (simp add: prod_eq_iff)
  have h4: "0 < workers ?cfg" by (simp add: ex_config_def)
  have wk: "os_walk ?ev (input_dir ?cfg) = ex_walk" by (simp add: ex_env_def)
  have pj: "path_join ''in'' ''notes.txt'' = ''in/notes.txt''"
    "path_join (dest_root_of ?cfg ?ev ''in'') ''notes.txt'' = ''out/./notes.txt''"
    by code_simp+
  have "fst (shutil_copy2 ''in/notes.txt'' ''out/./notes.txt'' ?w) = Inr ()" by code_simp
  then have cp: "shutil_copy2 ''in/notes.txt'' ''out/./notes.txt'' ?w =
      (Inr (), snd (shutil_copy2 ''in/notes.txt'' ''out/./notes.txt'' ?w))"
    by (simp add: prod_eq_iff)
  have nd: "''out/./notes.txt'' \<notin> dirs ?w" by (simp add: ex_world_def)
  have src: "files ?w ''in/notes.txt'' = Some \<lparr>mtime = 0, content = ''dark frames''\<rparr>"
    by (simp add: ex_world_def)
  have ev: "events (snd (main ?cfg ?ev ?w)) =
     [MakeDirs ''out'', MakeDirs ''out/.'', Copy2 ''in/notes.txt'' ''out/./notes.txt'',
      MakeDirs ''out/sub'', ConvertingNotice 2 4, Submit ''in/a.fits'' ''out/./a.xisf'',
      Submit ''in/sub/b.fits'' ''out/sub/b.xisf'',
      FailedNotice ''in/sub/b.fits'' (Exn OSError ''[Errno 28] No space left on device''),
      SuccessNotice ''in/a.fits'' ''out/./a.xisf'' 48 ''zlib'',
      Remove ''in/a.fits'', DeletedNotice ''in/a.fits'']"
    by code_simp
  have inw: "(''in'', [''sub''], [''a.fits'', ''notes.txt'']) \<in> set ex_walk"
    by (simp add: ex_walk_def)
  note t = pass_through_copied_before_dispatch [of "''notes.txt''" ?cfg "''in''" "''out/.''" "[]" ?w
        ?w1 ?ev ?tasks ?w2]
  from t h1 h2 h3 h4 have
    "\<forall>entry \<in> set (os_walk ?ev (input_dir ?cfg)). \<forall>f \<in> set (snd (snd entry)).
          \<not> is_convertible f \<longrightarrow>
            Copy2 (path_join (fst entry) f) (path_join (dest_root_of ?cfg ?ev (fst entry)) f)
              \<in> set (events ?w2)"
    by blast
  with inw nc wk pj have c1: "Copy2 ''in/notes.txt'' ''out/./notes.txt'' \<in> set (events ?w2)"
    by fastforce
  from t nc cp nd src pj(1)
  have c2: "files (snd (shutil_copy2 ''in/notes.txt'' ''out/./notes.txt'' ?w)) ''out/./notes.txt'' =
     Some \<lparr>mtime = 0, content = ''dark frames''\<rparr>"
    by (simp add: path_join_def endswith_def)
  show ?thesis using nc ev c1 c2 by simp
qed

section \<open>Destinations of tasks\<close>

lemma lower_char_dot: "lower_char c = CHR ''.'' \<Longrightarrow> c = CHR ''.''"
proof (cases "65 \<le> (of_char c :: nat) \<and> (of_char c :: nat) \<le> 90")
  case False
  assume "lower_char c = CHR ''.''"
  with False show ?thesis by (auto simp: lower_char_def Let_def split: if_splits)
next
  case True
  assume "lower_char c = CHR ''.''"
  with True have "char_of ((of_char c :: nat) + 32) = CHR ''.''"
    by (simp add: lower_char_def Let_def)
  then have "(of_char (char_of ((of_char c :: nat) + 32)) :: nat) = of_char (CHR ''.'')"
    by simp
  then have "((of_char c :: nat) + 32) mod 256 = 46" by simp
  with True show ?thesis by simp
qed

lemma lower_dot: "lower_char (CHR ''.'') = CHR ''.''"
  by code_simp

lemma rfind_notin: "c \<notin> set s \<Longrightarrow> rfind c s = - 1"
  by (simp add: rfind_def)

lemma rfind_upper: "rfind c s < int (length s)"
  by (simp add: rfind_def)

lemma rfind_append_notin: "c \<notin> set ys \<Longrightarrow> rfind c (xs @ ys) = rfind c xs"
proof -
  assume n: "c \<notin> set ys"
  then have "takeWhile (\<lambda>x. x \<noteq> c) (rev ys @ rev xs) = rev ys @ takeWhile (\<lambda>x. x \<noteq> c) (rev xs)"
    by (intro takeWhile_append2) auto
  with n show ?thesis by (simp add: rfind_def)
qed

lemma rfind_append_head: "c \<notin> set ys \<Longrightarrow> rfind c (xs @ c # ys) = int (length xs)"
proof -
  assume n: "c \<notin> set ys"
  have "rev (xs @ c # ys) = rev ys @ (c # rev xs)" by simp
  moreover from n have "takeWhile (\<lambda>x. x \<noteq> c) (rev ys @ (c # rev xs)) =
      rev ys @ takeWhile (\<lambda>x. x \<noteq> c) (c # rev xs)"
    by (intro takeWhile_append2) auto
  ultimately have "length (takeWhile (\<lambda>x. x \<noteq> c) (rev (xs @ c # ys))) = length ys"
    by simp
  then show ?thesis by (simp add: rfind_def)
qed

lemma path_join_plain:
  "CHR ''/'' \<notin> set fn \<Longrightarrow> path_join d fn = path_join d [] @ fn"
  by (cases fn) (auto simp: path_join_def)

lemma drop_last_char: "d \<noteq> [] \<Longrightarrow> drop (length d - 1) d = [last d]"
proof -
  assume "d \<noteq> []"
  then have "d = butlast d @ [last d]" by simp
  then have "drop (length (butlast d)) d = drop (length (butlast d)) (butlast d @ [last d])"
    by simp
  then show ?thesis by simp
qed

lemma endswith_slash: "endswith d ''/'' \<Longrightarrow> last d = CHR ''/''"
proof -
  assume e: "endswith d ''/''"
  then have ne: "d \<noteq> []" by (auto simp: endswith_def)
  from e have "drop (length d - 1) d = ''/''" by (simp add: endswith_def)
  with drop_last_char [OF ne] show ?thesis by simp
qed

lemma path_join_empty_shape: "path_join d [] = [] \<or> last (path_join d []) = CHR ''/''"
  by (auto simp: path_join_def endswith_slash)

lemma convertible_shape:
  assumes "is_convertible fn"
  shows "\<exists>e. fn = take (length fn - 5) fn @ CHR ''.'' # e \<and> CHR ''.'' \<notin> set e"
proof -
  let ?ext = "drop (length fn - 5) fn"
  have l5: "length ''.fits'' = (5::nat)" by simp
  from assms have "length ''.fits'' \<le> length (map lower_char fn) \<and>
      drop (length (map lower_char fn) - length ''.fits'') (map lower_char fn) = ''.fits''"
    by (simp only: is_convertible_def endswith_def str_lower_def)
  then have len: "5 \<le> length fn" and m: "map lower_char ?ext = ''.fits''"
    unfolding l5 length_map drop_map by simp_all
  from m obtain c0 c1 c2 c3 c4 where ext: "?ext = [c0, c1, c2, c3, c4]"
    and l: "lower_char c0 = CHR ''.''" "lower_char c1 = CHR ''f''" "lower_char c2 = CHR ''i''"
      "lower_char c3 = CHR ''t''" "lower_char c4 = CHR ''s''"
    by (auto simp: map_eq_Cons_conv)
  have c0: "c0 = CHR ''.''" using l(1) by (rule lower_char_dot)
  have nd: "c1 \<noteq> CHR ''.''" "c2 \<noteq> CHR ''.''" "c3 \<noteq> CHR ''.''" "c4 \<noteq> CHR ''.''"
    using l lower_dot by auto
  have "fn = take (length fn - 5) fn @ ?ext" by simp
  with ext c0 have "fn = take (length fn - 5) fn @ CHR ''.'' # [c1, c2, c3, c4]" by simp
  moreover have "CHR ''.'' \<notin> set [c1, c2, c3, c4]" using nd by auto
  ultimately show ?thesis by blast
qed

lemma prefix_stem_unique:
  assumes "X1 @ s1 = X2 @ s2" and "CHR ''/'' \<notin> set s1" and "CHR ''/'' \<notin> set s2"
    and "X1 = [] \<or> last X1 = CHR ''/''" and "X2 = [] \<or> last X2 = CHR ''/''"
  shows "X1 = X2 \<and> s1 = s2"
proof -
  from assms(1) obtain us where
    "(X1 = X2 @ us \<and> us @ s1 = s2) \<or> (X1 @ us = X2 \<and> s1 = us @ s2)"
    by (auto simp: append_eq_append_conv2)
  then show ?thesis
  proof
    assume a: "X1 = X2 @ us \<and> us @ s1 = s2"
    have "us = []"
    proof (rule ccontr)
      assume ne: "us \<noteq> []"
      with a have "X1 \<noteq> []" "last X1 = last us" by auto
      with assms(4) have "last us = CHR ''/''" by simp
      with ne have "CHR ''/'' \<in> set us" by (metis last_in_set)
      with a assms(3) show False by auto
    qed
    with a show ?thesis by simp
  next
    assume a: "X1 @ us = X2 \<and> s1 = us @ s2"
    have "us = []"
    proof (rule ccontr)
      assume ne: "us \<noteq> []"
      with a have "X2 \<noteq> []" "last X2 = last us" by auto
      with assms(5) have "last us = CHR ''/''" by simp
      with ne have "CHR ''/'' \<in> set us" by (metis last_in_set)
      with a assms(2) show False by auto
    qed
    with a show ?thesis by simp
  qed
qed

lemma rfind_append_in: "c \<in> set ys \<Longrightarrow> rfind c (xs @ ys) = int (length xs) + rfind c ys"
proof -
  assume i: "c \<in> set ys"
  then have "c \<in> set (rev ys)" by simp
  then have "takeWhile (\<lambda>x. x \<noteq> c) (rev ys @ rev xs) = takeWhile (\<lambda>x. x \<noteq> c) (rev ys)"
    by (intro takeWhile_append1 [where x = c]) auto
  with i show ?thesis by (simp add: rfind_def)
qed

lemma rfind_nonneg: "c \<in> set s \<Longrightarrow> 0 \<le> rfind c s"
proof -
  assume i: "c \<in> set s"
  let ?t = "takeWhile (\<lambda>x. x \<noteq> c) (rev s)"
  have le: "length ?t \<le> length (rev s)" by (rule length_takeWhile_le)
  have "length ?t \<noteq> length (rev s)"
  proof
    assume "length ?t = length (rev s)"
    then have "?t = rev s" using takeWhile_eq_take [of "\<lambda>x. x \<noteq> c" "rev s"] by simp
    then have "\<forall>x \<in> set (rev s). x \<noteq> c" by (simp add: takeWhile_eq_all_conv)
    with i show False by auto
  qed
  with le have "length ?t < length s" by simp
  with i show ?thesis by (simp add: rfind_def)
qed

lemma rfind_last_slash: "X = [] \<or> last X = c \<Longrightarrow> rfind c X = int (length X) - 1"
proof (cases "X = []")
  case True
  then show ?thesis by (simp add: rfind_def)
next
  case False
  assume "X = [] \<or> last X = c"
  with False have "X = butlast X @ c # []" by (metis append_butlast_last_id)
  then have "rfind c X = rfind c (butlast X @ c # [])" by simp
  also have "\<dots> = int (length (butlast X))" by (rule rfind_append_head) simp
  finally show ?thesis using False by (simp add: of_nat_diff Suc_leI)
qed

lemma splitext_joined:
  assumes "CHR ''/'' \<notin> set fn" and "X = [] \<or> last X = CHR ''/''"
  shows "splitext (X @ fn) = (X @ fst (splitext fn), snd (splitext fn))"
proof -
  have sepX: "rfind (CHR ''/'') (X @ fn) = int (length X) - 1"
    using assms rfind_append_notin [of "CHR ''/''" fn X] rfind_last_slash [of X "CHR ''/''"] by simp
  have sep0: "rfind (CHR ''/'') fn = - 1" using assms(1) by (rule rfind_notin)
  show ?thesis
  proof (cases "CHR ''.'' \<in> set fn")
    case False
    have "rfind (CHR ''.'') (X @ fn) = rfind (CHR ''.'') X" using False by (rule rfind_append_notin)
    then have "\<not> rfind (CHR ''.'') (X @ fn) > rfind (CHR ''/'') (X @ fn)"
      using rfind_upper [of "CHR ''.''" X] sepX by simp
    moreover have "\<not> rfind (CHR ''.'') fn > rfind (CHR ''/'') fn"
      using False sep0 by (simp add: rfind_notin)
    ultimately show ?thesis by (simp add: splitext_def Let_def)
  next
    case True
    define k where "k = nat (rfind (CHR ''.'') fn)"
    have k0: "rfind (CHR ''.'') fn = int k" using rfind_nonneg [OF True] by (simp add: k_def)
    have dotX: "rfind (CHR ''.'') (X @ fn) = int (length X + k)"
      using rfind_append_in [OF True, of X] k0 by simp
    have g1: "rfind (CHR ''.'') (X @ fn) > rfind (CHR ''/'') (X @ fn)" using dotX sepX by simp
    have g0: "rfind (CHR ''.'') fn > rfind (CHR ''/'') fn" using k0 sep0 by simp
    have sl1: "take (nat (rfind (CHR ''.'') (X @ fn) - (rfind (CHR ''/'') (X @ fn) + 1)))
                 (drop (nat (rfind (CHR ''/'') (X @ fn) + 1)) (X @ fn)) = take k fn"
      using dotX sepX by simp
    have sl0: "take (nat (rfind (CHR ''.'') fn - (rfind (CHR ''/'') fn + 1)))
                 (drop (nat (rfind (CHR ''/'') fn + 1)) fn) = take k fn"
      using k0 sep0 by simp
    have nd: "nat (rfind (CHR ''.'') (X @ fn)) = length X + k" using dotX by linarith
    have n0: "nat (rfind (CHR ''.'') fn) = k" using k0 by linarith
    have tk: "take (nat (rfind (CHR ''.'') (X @ fn))) (X @ fn) = X @ take k fn"
      and dk: "drop (nat (rfind (CHR ''.'') (X @ fn))) (X @ fn) = drop k fn"
      by (simp_all add: nd)
    have a: "splitext (X @ fn) =
        (if has_non_dot (take k fn) then (X @ take k fn, drop k fn) else (X @ fn, []))"
      unfolding splitext_def Let_def by (simp only: g1 sl1 tk dk if_True)
    have b: "splitext fn = (if has_non_dot (take k fn) then (take k fn, drop k fn) else (fn, []))"
      unfolding splitext_def Let_def by (simp only: g0 sl0 n0 if_True)
    show ?thesis using a b by simp
  qed
qed

lemma splitext_root_no_slash: "CHR ''/'' \<notin> set fn \<Longrightarrow> CHR ''/'' \<notin> set (fst (splitext fn))"
  by (auto simp: splitext_def Let_def dest: in_set_takeD)

lemma xisf_dst_root:
  assumes "CHR ''/'' \<notin> set fn"
  shows "xisf_dst d fn = path_join d [] @ fst (splitext fn) @ ''.xisf''"
proof -
  have "path_join d fn = path_join d [] @ fn" using assms by (rule path_join_plain)
  then show ?thesis
    using splitext_joined [OF assms path_join_empty_shape, of d] by (simp add: xisf_dst_def)
qed

lemma xisf_dst_eq_iff:
  assumes "CHR ''/'' \<notin> set fn1" and "CHR ''/'' \<notin> set fn2"
  shows "xisf_dst d1 fn1 = xisf_dst d2 fn2 \<longleftrightarrow>
           path_join d1 [] = path_join d2 [] \<and> fst (splitext fn1) = fst (splitext fn2)"
proof
  assume "xisf_dst d1 fn1 = xisf_dst d2 fn2"
  then have "path_join d1 [] @ fst (splitext fn1) @ ''.xisf'' =
             path_join d2 [] @ fst (splitext fn2) @ ''.xisf''"
    using assms by (simp add: xisf_dst_root)
  then have eq: "path_join d1 [] @ fst (splitext fn1) = path_join d2 [] @ fst (splitext fn2)"
    by (metis append.assoc append_same_eq)
  from prefix_stem_unique [OF eq splitext_root_no_slash [OF assms(1)]
      splitext_root_no_slash [OF assms(2)] path_join_empty_shape path_join_empty_shape]
  show "path_join d1 [] = path_join d2 [] \<and> fst (splitext fn1) = fst (splitext fn2)" .
next
  assume "path_join d1 [] = path_join d2 [] \<and> fst (splitext fn1) = fst (splitext fn2)"
  then show "xisf_dst d1 fn1 = xisf_dst d2 fn2" using assms by (simp add: xisf_dst_root)
qed

lemma convertible_root:
  assumes "is_convertible fn" and "CHR ''/'' \<notin> set fn"
  shows "fst (splitext fn) =
           (if has_non_dot (take (length fn - 5) fn) then take (length fn - 5) fn else fn)"
proof -
  from convertible_shape [OF assms(1)] obtain e
    where fn: "fn = take (length fn - 5) fn @ CHR ''.'' # e" and e: "CHR ''.'' \<notin> set e"
    by blast
  let ?stem = "take (length fn - 5) fn"
  have dot: "rfind (CHR ''.'') fn = int (length ?stem)"
    using rfind_append_head [OF e, of ?stem] fn by simp
  have sep: "rfind (CHR ''/'') fn = - 1" using assms(2) by (rule rfind_notin)
  have "take (length ?stem) fn = ?stem" by simp
  then have sl: "take (nat (rfind (CHR ''.'') fn - (rfind (CHR ''/'') fn + 1)))
                 (drop (nat (rfind (CHR ''/'') fn + 1)) fn) = ?stem"
    using dot sep by simp
  have g: "rfind (CHR ''.'') fn > rfind (CHR ''/'') fn" using dot sep by simp
  have "splitext fn = (if has_non_dot ?stem then (take (nat (rfind (CHR ''.'') fn)) fn,
            drop (nat (rfind (CHR ''.'') fn)) fn) else (fn, []))"
    unfolding splitext_def Let_def by (simp only: g sl if_True)
  moreover have "nat (rfind (CHR ''.'') fn) = length ?stem" using dot by linarith
  ultimately show ?thesis by simp
qed

text \<open>
  C8, as amended. Take an enumeration in which no convertible name contains a separator,
  as in every listing of \<open>os.walk\<close>. The destinations of two of its tasks are equal exactly
  when the directories of the two sources have the same mirrored directory and the two
  file names have the same root under \<open>os.path.splitext\<close>. That root is the name without
  its last five characters when these leave a character other than a dot, and the whole
  name otherwise. So the destinations differ unless, in one mirrored directory, the names
  are equal, differ only in the letter case of the extension, or one is made of dots and
  the extension and the other is that name followed by one more extension.
\<close>

theorem colliding_destinations_share_root:
  assumes "fst (enumerate_tree cfg ev w) = Inr tasks"
    and "\<forall>entry \<in> set (os_walk ev (input_dir cfg)). \<forall>fn \<in> set (snd (snd entry)).
           is_convertible fn \<longrightarrow> CHR ''/'' \<notin> set fn"
    and "(src1, dst1) \<in> set tasks" and "(src2, dst2) \<in> set tasks"
  shows "\<exists>e1 fn1 e2 fn2.
           e1 \<in> set (os_walk ev (input_dir cfg)) \<and> fn1 \<in> set (snd (snd e1)) \<and>
           e2 \<in> set (os_walk ev (input_dir cfg)) \<and> fn2 \<in> set (snd (snd e2)) \<and>
           src1 = path_join (fst e1) fn1 \<and> src2 = path_join (fst e2) fn2 \<and>
           is_convertible fn1 \<and> is_convertible fn2 \<and>
           (dst1 = dst2 \<longleftrightarrow>
              path_join (dest_root_of cfg ev (fst e1)) [] =
                path_join (dest_root_of cfg ev (fst e2)) [] \<and>
              (if has_non_dot (take (length fn1 - 5) fn1) then take (length fn1 - 5) fn1 else fn1) =
              (if has_non_dot (take (length fn2 - 5) fn2) then take (length fn2 - 5) fn2 else fn2))"
proof -
  let ?es = "os_walk ev (input_dir cfg)"
  from assms(1) have wl: "walk_loop cfg ev ?es [] w = (Inr tasks, snd (walk_loop cfg ev ?es [] w))"
    by (simp add: enumerate_tree_def prod_eq_iff)
  note o = walk_loop_origin [OF wl]
  from o assms(3) obtain e1 fn1 where 1: "e1 \<in> set ?es" "fn1 \<in> set (snd (snd e1))"
      "is_convertible fn1" "src1 = path_join (fst e1) fn1"
      "dst1 = xisf_dst (dest_root_of cfg ev (fst e1)) fn1"
    by fastforce
  from o assms(4) obtain e2 fn2 where 2: "e2 \<in> set ?es" "fn2 \<in> set (snd (snd e2))"
      "is_convertible fn2" "src2 = path_join (fst e2) fn2"
      "dst2 = xisf_dst (dest_root_of cfg ev (fst e2)) fn2"
    by fastforce
  from assms(2) 1 have p1: "CHR ''/'' \<notin> set fn1" by blast
  from assms(2) 2 have p2: "CHR ''/'' \<notin> set fn2" by blast
  have "dst1 = dst2 \<longleftrightarrow>
      path_join (dest_root_of cfg ev (fst e1)) [] = path_join (dest_root_of cfg ev (fst e2)) [] \<and>
      fst (splitext fn1) = fst (splitext fn2)"
    unfolding 1(5) 2(5) using p1 p2 by (rule xisf_dst_eq_iff)
  then have "dst1 = dst2 \<longleftrightarrow>
      path_join (dest_root_of cfg ev (fst e1)) [] = path_join (dest_root_of cfg ev (fst e2)) [] \<and>
      (if has_non_dot (take (length fn1 - 5) fn1) then take (length fn1 - 5) fn1 else fn1) =
      (if has_non_dot (take (length fn2 - 5) fn2) then take (length fn2 - 5) fn2 else fn2)"
    by (simp only: convertible_root [OF 1(3) p1] convertible_root [OF 2(3) p2])
  with 1 2 show ?thesis by blast
qed

theorem colliding_destinations_share_root_witness:
  "fst (enumerate_tree (ex_config True 5)
          (ex_env write_ok [(''in'', [], [''a.fits'', ''a.FITS'', ''.fits'', ''.fits.fits''])])
          (ex_world 60)) =
     Inr [(''in/a.fits'', ''out/./a.xisf''), (''in/a.FITS'', ''out/./a.xisf''),
          (''in/.fits'', ''out/./.fits.xisf''), (''in/.fits.fits'', ''out/./.fits.xisf'')] \<and>
   (\<exists>e1 fn1 e2 fn2.
       e1 \<in> set (os_walk (ex_env write_ok
                [(''in'', [], [''a.fits'', ''a.FITS'', ''.fits'', ''.fits.fits''])])
              (input_dir (ex_config True 5))) \<and>
       fn1 \<in> set (snd (snd e1)) \<and>
       e2 \<in> set (os_walk (ex_env write_ok
                [(''in'', [], [''a.fits'', ''a.FITS'', ''.fits'', ''.fits.fits''])])
              (input_dir (ex_config True 5))) \<and>
       fn2 \<in> set (snd (snd e2)) \<and>
       ''in/.fits'' = path_join (fst e1) fn1 \<and> ''in/.fits.fits'' = path_join (fst e2) fn2 \<and>
       is_convertible fn1 \<and> is_convertible fn2 \<and>
       path_join (dest_root_of (ex_config True 5)
                    (ex_env write_ok
                       [(''in'', [], [''a.fits'', ''a.FITS'', ''.fits'', ''.fits.fits''])])
                    (fst e1)) [] =
       path_join (dest_root_of (ex_config True 5)
                    (ex_env write_ok
                       [(''in'', [], [''a.fits'', ''a.FITS'', ''.fits'', ''.fits.fits''])])
                    (fst e2)) [] \<and>
       (if has_non_dot (take (length fn1 - 5) fn1) then take (length fn1 - 5) fn1 else fn1) =
       (if has_non_dot (take (length fn2 - 5) fn2) then take (length fn2 - 5) fn2 else fn2))"
proof -
  let ?cfg = "ex_config True 5"
  let ?ev = "ex_env write_ok [(''in'', [], [''a.fits'', ''a.FITS'', ''.fits'', ''.fits.fits''])]"
  let ?tasks = "[(''in/a.fits'', ''out/./a.xisf''), (''in/a.FITS'', ''out/./a.xisf''),
          (''in/.fits'', ''out/./.fits.xisf''), (''in/.fits.fits'', ''out/./.fits.xisf'')]"
  have h1: "fst (enumerate_tree ?cfg ?ev (ex_world 60)) = Inr ?tasks" by code_simp
  have h2: "\<forall>entry \<in> set (os_walk ?ev (input_dir ?cfg)). \<forall>fn \<in> set (snd (snd entry)).
           is_convertible fn \<longrightarrow> CHR ''/'' \<notin> set fn"
    by code_simp
  have h3: "(''in/.fits'', ''out/./.fits.xisf'') \<in> set ?tasks" by simp
  have h4: "(''in/.fits.fits'', ''out/./.fits.xisf'') \<in> set ?tasks" by simp
  show ?thesis
    using colliding_destinations_share_root [OF h1 h2 h3 h4] h1 by simp
qed

text \<open>
  C8 as stated fails: a directory lists \<open>a.fits\<close>, \<open>a.FITS\<close>, \<open>.fits\<close> and
  \<open>.fits.fits\<close>. All four names match the extension; the first two lose it and go to
  \<open>out/./a.xisf\<close>, the third has no extension for \<open>splitext\<close> and the fourth loses its
  last one, so both go to \<open>out/./.fits.xisf\<close>: four different tasks, two destinations.
\<close>

theorem distinct_sources_same_destination:
  "fst (enumerate_tree (ex_config True 5)
          (ex_env write_ok [(''in'', [], [''a.fits'', ''a.FITS'', ''.fits'', ''.fits.fits''])])
          (ex_world 60)) =
     Inr [(''in/a.fits'', ''out/./a.xisf''), (''in/a.FITS'', ''out/./a.xisf''),
          (''in/.fits'', ''out/./.fits.xisf''), (''in/.fits.fits'', ''out/./.fits.xisf'')] \<and>
   ''in/a.fits'' \<noteq> ''in/a.FITS'' \<and> ''in/.fits'' \<noteq> ''in/.fits.fits''"
  by code_simp

end
